theory Spec2Isabelle
  imports Main "HOL-Library.Word"
begin

unbundle bit_operations_syntax

section \<open>LWIS transaction processor: data model\<close>

text \<open>
  A shallow embedding of \<^verbatim>\<open>lwis_transaction.c\<close>.  Fixed-width C integers that take part
  in arithmetic or ordering (\<^verbatim>\<open>uint64_t\<close>, \<^verbatim>\<open>int64_t\<close>) are 64-bit words; \<^verbatim>\<open>int64_t\<close>
  values are compared with the signed order \<open><s\<close>.  Values of C type \<^verbatim>\<open>int\<close> that are only
  stored and compared with constants (return codes, block ids, type tags) are HOL integers.
\<close>

type_synonym u64 = "64 word"
type_synonym s64 = "64 word"

text \<open>
  \<^verbatim>\<open>size_t\<close> on the 64-bit kernel the driver is built for: sums and products of sizes wrap
  at \<open>2 ^ 64\<close>.
\<close>

type_synonym size_t = "64 word"

text \<open>The Linux errno values that the file returns (negated).\<close>

definition ENOENT :: int where "ENOENT = 2"
definition ENOMEM :: int where "ENOMEM = 12"
definition ENODEV :: int where "ENODEV = 19"
definition EINVAL :: int where "EINVAL = 22"
definition ETIMEDOUT :: int where "ETIMEDOUT = 110"
definition ECANCELED :: int where "ECANCELED = 125"

text \<open>
  Constants that \<^verbatim>\<open>lwis_transaction.c\<close> takes from headers: the event-id and event-counter
  sentinels, the I2C device type tag, the length of the debug history and the sizes of the
  structs it allocates.  They are parameters of the model.
\<close>

record lwis_defs =
  LWIS_EVENT_ID_NONE :: s64
  LWIS_EVENT_ID_CLIENT_CLEANUP :: s64
  LWIS_EVENT_COUNTER_ON_NEXT_OCCURRENCE :: s64
  LWIS_EVENT_COUNTER_EVERY_TIME :: s64
  DEVICE_TYPE_I2C :: int
  TRANSACTION_DEBUG_HISTORY_SIZE :: nat
  sizeof_response_header :: size_t
  sizeof_io_result :: size_t
  sizeof_transaction :: size_t
  sizeof_event_list :: size_t

definition EXPLICIT_EVENT_COUNTER :: "lwis_defs \<Rightarrow> s64 \<Rightarrow> bool" where
  "EXPLICIT_EVENT_COUNTER K x \<longleftrightarrow>
     x \<noteq> LWIS_EVENT_COUNTER_ON_NEXT_OCCURRENCE K \<and> x \<noteq> LWIS_EVENT_COUNTER_EVERY_TIME K"

subsection \<open>I/O entries\<close>

record lwis_io_entry_rw =
  rw_bid :: int
  rw_offset :: u64
  rw_val :: u64

text \<open>
  A batch entry's \<^verbatim>\<open>buf\<close> pointer is modelled by the bytes it points to; the length of an
  entry array is its \<^verbatim>\<open>num_io_entries\<close>.
\<close>

record lwis_io_entry_rw_batch =
  rwb_bid :: int
  rwb_offset :: u64
  size_in_bytes :: size_t
  buf :: "8 word list"

record lwis_io_entry_modify =
  mod_bid :: int
  mod_offset :: u64
  mod_val :: u64
  mod_val_mask :: u64

record lwis_io_entry_poll =
  poll_bid :: int
  poll_offset :: u64
  poll_val :: u64
  poll_mask :: u64
  poll_timeout_ms :: u64

text \<open>
  The tagged union \<^verbatim>\<open>struct lwis_io_entry\<close>.  \<open>LWIS_IO_ENTRY_OTHER\<close> stands for every
  type tag that \<^verbatim>\<open>process_transaction\<close> does not recognise.
\<close>

datatype lwis_io_entry =
    LWIS_IO_ENTRY_READ lwis_io_entry_rw
  | LWIS_IO_ENTRY_READ_BATCH lwis_io_entry_rw_batch
  | LWIS_IO_ENTRY_WRITE lwis_io_entry_rw
  | LWIS_IO_ENTRY_WRITE_BATCH lwis_io_entry_rw_batch
  | LWIS_IO_ENTRY_MODIFY lwis_io_entry_modify
  | LWIS_IO_ENTRY_BIAS u64
  | LWIS_IO_ENTRY_POLL lwis_io_entry_poll
  | LWIS_IO_ENTRY_OTHER int

record lwis_io_result =
  res_bid :: int
  res_offset :: u64
  num_value_bytes :: size_t
  res_values :: "8 word list"

subsection \<open>Transactions\<close>

text \<open>
  \<open>io_entries\<close> is the address of the entry array in the store \<open>io_mem\<close> below: the array
  is shared by every copy of the info struct, as the pointer is in C.
\<close>

record lwis_transaction_info =
  trigger_event_id :: s64
  trigger_event_counter :: s64
  io_entries :: nat
  emit_success_event_id :: s64
  emit_error_event_id :: s64
  run_in_event_context :: bool
  allow_counter_eq :: bool
  id' :: s64
  current_trigger_event_counter :: s64
  submission_timestamp_ns :: s64

text \<open>
  The response: the header fields, then the result area.  \<open>results\<close> lists the result slots
  written so far, in buffer order; \<open>alloc_size\<close> is the size in bytes of the allocation that
  holds header and result area.
\<close>

record lwis_transaction_response =
  resp_id :: s64
  error_code :: int
  num_entries :: size_t
  results_size_bytes :: size_t
  completion_index :: int
  results :: "lwis_io_result list"
  alloc_size :: size_t

record lwis_transaction =
  info :: lwis_transaction_info
  resp :: lwis_transaction_response

text \<open>An entry of a pending-event list: event id, payload, payload size.\<close>

record lwis_pending_event =
  pe_event_id :: s64
  pe_payload :: lwis_transaction_response
  pe_size :: size_t

record lwis_device =
  native_value_bitwidth :: nat
  dev_type :: int
  enabled :: int

text \<open>
  The collaborators behind the narrow interfaces of the file, as operations on a world
  state \<open>'w\<close> (device registers, clocks, allocator, event-state tables):
  \<^item> \<open>register_io w entry in_irq bitwidth\<close>: \<^verbatim>\<open>vops.register_io\<close>; returns the error code,
    the value a read deposits in \<^verbatim>\<open>rw.val\<close> and the bytes a batch read deposits in its buffer;
  \<^item> \<open>single_register_read w non_blocking bid offset bitwidth\<close>:
    \<^verbatim>\<open>lwis_device_single_register_read\<close>;
  \<^item> \<open>get_time_ms\<close>: \<^verbatim>\<open>ktime_to_ms(lwis_get_time())\<close>; \<open>ktime_get_ns\<close>:
    \<^verbatim>\<open>ktime_to_ns(ktime_get())\<close>; \<open>usleep_range\<close>: the 1 ms sleep;
  \<^item> \<open>kzalloc w size\<close>: whether the allocation succeeds;
  \<^item> \<open>event_state_find\<close>: \<^verbatim>\<open>lwis_device_event_state_find\<close>, the event counter if the state
    exists; the two \<open>find_or_create\<close> operations return whether they succeeded.
\<close>

record 'w lwis_env =
  register_io :: "'w \<Rightarrow> lwis_io_entry \<Rightarrow> bool \<Rightarrow> nat \<Rightarrow> (int \<times> u64 \<times> 8 word list) \<times> 'w"
  single_register_read :: "'w \<Rightarrow> bool \<Rightarrow> int \<Rightarrow> u64 \<Rightarrow> nat \<Rightarrow> (int \<times> u64) \<times> 'w"
  get_time_ms :: "'w \<Rightarrow> u64 \<times> 'w"
  ktime_get_ns :: "'w \<Rightarrow> s64 \<times> 'w"
  usleep_range :: "'w \<Rightarrow> 'w"
  kzalloc :: "'w \<Rightarrow> size_t \<Rightarrow> bool \<times> 'w"
  event_state_find :: "'w \<Rightarrow> s64 \<Rightarrow> s64 option"
  device_event_state_find_or_create :: "'w \<Rightarrow> s64 \<Rightarrow> bool \<times> 'w"
  client_event_state_find_or_create :: "'w \<Rightarrow> s64 \<Rightarrow> bool \<times> 'w"

text \<open>
  The state the transaction code works on: the fields of \<^verbatim>\<open>struct lwis_client\<close> it uses,
  the store of entry arrays, the events handed to \<^verbatim>\<open>lwis_pending_events_emit\<close> so far, and
  the world.  The hash table \<open>transaction_list\<close> is the list of its event lists in iteration
  order, each an event id with its transactions; \<open>work_pending\<close> says that
  \<open>transaction_work\<close> is queued on the work queue, \<open>transaction_wq\<close> that the work queue
  exists, \<open>transaction_lock\<close> that the spinlock is held.  Freeing memory is not modelled: a
  freed array stays readable in \<open>io_mem\<close>.
\<close>

record 'w lwis_client =
  transaction_list :: "(s64 \<times> lwis_transaction list) list"
  transaction_process_queue :: "lwis_transaction list"
  transaction_counter :: s64
  transaction_wq :: bool
  work_pending :: bool
  transaction_lock :: bool
  transaction_hist :: "lwis_transaction_info list"
  cur_transaction_hist_idx :: nat
  io_mem :: "nat \<Rightarrow> lwis_io_entry list"
  emitted :: "lwis_pending_event list"
  world :: 'w

section \<open>The I/O entry interpreter\<close>

definition lwis_entry_bias :: "lwis_io_entry \<Rightarrow> u64 \<Rightarrow> lwis_io_entry" where
  "lwis_entry_bias entry bias =
     (case entry of
        LWIS_IO_ENTRY_WRITE rw \<Rightarrow> LWIS_IO_ENTRY_WRITE (rw\<lparr>rw_offset := rw_offset rw + bias\<rparr>)
      | LWIS_IO_ENTRY_READ rw \<Rightarrow> LWIS_IO_ENTRY_READ (rw\<lparr>rw_offset := rw_offset rw + bias\<rparr>)
      | LWIS_IO_ENTRY_WRITE_BATCH b \<Rightarrow>
          LWIS_IO_ENTRY_WRITE_BATCH (b\<lparr>rwb_offset := rwb_offset b + bias\<rparr>)
      | LWIS_IO_ENTRY_READ_BATCH b \<Rightarrow>
          LWIS_IO_ENTRY_READ_BATCH (b\<lparr>rwb_offset := rwb_offset b + bias\<rparr>)
      | LWIS_IO_ENTRY_MODIFY m \<Rightarrow> LWIS_IO_ENTRY_MODIFY (m\<lparr>mod_offset := mod_offset m + bias\<rparr>)
      | _ \<Rightarrow> entry)"

text \<open>
  One turn of the loop of \<^verbatim>\<open>lwis_entry_poll\<close>: read, compare under the mask, check the
  elapsed time, sleep.
\<close>

datatype 'w poll_step = Poll_Done int 'w | Poll_Again u64 'w

definition poll_body ::
  "'w lwis_env \<Rightarrow> lwis_device \<Rightarrow> lwis_io_entry_poll \<Rightarrow> u64 \<Rightarrow> 'w \<Rightarrow> 'w poll_step" where
  "poll_body B dev p start w =
     (case single_register_read B w False (poll_bid p) (poll_offset p)
             (native_value_bitwidth dev) of
        ((ret, val), w1) \<Rightarrow>
          if ret \<noteq> 0 then Poll_Done ret w1
          else if val AND poll_mask p = poll_val p AND poll_mask p then Poll_Done 0 w1
          else (case get_time_ms B w1 of
                  (now, w2) \<Rightarrow>
                    if now - start > poll_timeout_ms p then Poll_Done (- ETIMEDOUT) w2
                    else Poll_Again val (usleep_range B w2)))"

partial_function (option) poll_loop ::
  "'w lwis_env \<Rightarrow> lwis_device \<Rightarrow> lwis_io_entry_poll \<Rightarrow> u64 \<Rightarrow> u64 \<Rightarrow> 'w \<Rightarrow> (int \<times> 'w) option"
where
  "poll_loop B dev p start val w =
     (if val \<noteq> poll_val p then
        (case poll_body B dev p start w of
           Poll_Done ret w' \<Rightarrow> Some (ret, w')
         | Poll_Again val' w' \<Rightarrow> poll_loop B dev p start val' w')
      else Some (- ETIMEDOUT, w))"

declare poll_loop.simps [code]

definition lwis_entry_poll ::
  "'w lwis_env \<Rightarrow> lwis_device \<Rightarrow> lwis_io_entry_poll \<Rightarrow> 'w \<Rightarrow> (int \<times> 'w) option" where
  "lwis_entry_poll B dev p w =
     (case get_time_ms B w of (start, w0) \<Rightarrow> poll_loop B dev p start (NOT (poll_val p)) w0)"

text \<open>
  The first \<open>n\<close> bytes of a register value, least significant first (the \<^verbatim>\<open>memcpy\<close> from
  \<^verbatim>\<open>&entry->rw.val\<close> on the little-endian target; native widths are at most 64 bits).
\<close>

definition value_bytes :: "nat \<Rightarrow> u64 \<Rightarrow> 8 word list" where
  "value_bytes n v = map (\<lambda>k. ucast (drop_bit (8 * k) v)) [0..<n]"

text \<open>
  Modelled from the spec: \<^verbatim>\<open>lwis_pending_event_push\<close> and \<^verbatim>\<open>lwis_pending_events_emit\<close> live in
  the event layer, outside this file: "pushPending (buffers) and emitPending (dispatches)".
  Pushing appends to the pending list; emitting hands the whole list over.
\<close>

definition lwis_pending_event_push ::
  "lwis_pending_event list \<Rightarrow> s64 \<Rightarrow> lwis_transaction_response \<Rightarrow> size_t
     \<Rightarrow> lwis_pending_event list"
where
  "lwis_pending_event_push l event_id payload sz =
     l @ [\<lparr>pe_event_id = event_id, pe_payload = payload, pe_size = sz\<rparr>]"

definition lwis_pending_events_emit ::
  "'w lwis_client \<Rightarrow> lwis_pending_event list option \<Rightarrow> 'w lwis_client" where
  "lwis_pending_events_emit client pending_events =
     (case pending_events of
        None \<Rightarrow> client
      | Some l \<Rightarrow> client\<lparr>emitted := emitted client @ l\<rparr>)"

text \<open>
  The body of the loop of \<^verbatim>\<open>process_transaction\<close> for one entry, after the bias has been
  applied to it.  \<open>Entry_Done\<close>: the entry as it is left in the array, the bias in force for
  the next entry, the response, the world.  \<open>Entry_Fail\<close>: the jump to \<^verbatim>\<open>event_push\<close>, with
  the value of \<^verbatim>\<open>ret\<close> there; the response already holds the error code.
\<close>

datatype 'w entry_outcome =
    Entry_Done lwis_io_entry u64 lwis_transaction_response 'w
  | Entry_Fail int lwis_io_entry lwis_transaction_response 'w

definition process_write ::
  "'w lwis_env \<Rightarrow> lwis_device \<Rightarrow> bool \<Rightarrow> lwis_io_entry \<Rightarrow> u64 \<Rightarrow> lwis_transaction_response \<Rightarrow> 'w
     \<Rightarrow> 'w entry_outcome" where
  "process_write B dev in_irq entry bias rs w =
     (case register_io B w entry in_irq (native_value_bitwidth dev) of
        ((ret, v, bs), w') \<Rightarrow>
          if ret \<noteq> 0 then Entry_Fail ret entry (rs\<lparr>error_code := ret\<rparr>) w'
          else Entry_Done entry bias rs w')"

definition process_entry ::
  "'w lwis_env \<Rightarrow> lwis_device \<Rightarrow> bool \<Rightarrow> lwis_io_entry \<Rightarrow> u64 \<Rightarrow> lwis_transaction_response \<Rightarrow> 'w
     \<Rightarrow> 'w entry_outcome option" where
  "process_entry B dev in_irq entry bias rs w =
     (case entry of
        LWIS_IO_ENTRY_WRITE rw \<Rightarrow> Some (process_write B dev in_irq entry bias rs w)
      | LWIS_IO_ENTRY_WRITE_BATCH b \<Rightarrow> Some (process_write B dev in_irq entry bias rs w)
      | LWIS_IO_ENTRY_MODIFY m \<Rightarrow> Some (process_write B dev in_irq entry bias rs w)
      | LWIS_IO_ENTRY_READ rw \<Rightarrow>
          (let n = native_value_bitwidth dev div 8;
               slot = \<lparr>res_bid = rw_bid rw, res_offset = rw_offset rw, num_value_bytes = of_nat n,
                       res_values = replicate n 0\<rparr>
           in case register_io B w entry in_irq (native_value_bitwidth dev) of
                ((ret, v, bs), w') \<Rightarrow>
                  if ret \<noteq> 0 then
                    Some (Entry_Fail ret (LWIS_IO_ENTRY_READ (rw\<lparr>rw_val := v\<rparr>))
                            (rs\<lparr>results := results rs @ [slot], error_code := ret\<rparr>) w')
                  else
                    Some (Entry_Done (LWIS_IO_ENTRY_READ (rw\<lparr>rw_val := v\<rparr>)) bias
                            (rs\<lparr>results := results rs @ [slot\<lparr>res_values := value_bytes n v\<rparr>]\<rparr>)
                            w'))
      | LWIS_IO_ENTRY_READ_BATCH b \<Rightarrow>
          (let slot = \<lparr>res_bid = rwb_bid b, res_offset = rwb_offset b,
                       num_value_bytes = size_in_bytes b,
                       res_values = replicate (unat (size_in_bytes b)) 0\<rparr>
           in case register_io B w (LWIS_IO_ENTRY_READ_BATCH (b\<lparr>buf := res_values slot\<rparr>))
                     in_irq (native_value_bitwidth dev) of
                ((ret, v, bs), w') \<Rightarrow>
                  if ret \<noteq> 0 then
                    Some (Entry_Fail ret (LWIS_IO_ENTRY_READ_BATCH (b\<lparr>buf := bs\<rparr>))
                            (rs\<lparr>results := results rs @ [slot\<lparr>res_values := bs\<rparr>],
                                error_code := ret\<rparr>) w')
                  else
                    Some (Entry_Done (LWIS_IO_ENTRY_READ_BATCH (b\<lparr>buf := bs\<rparr>)) bias
                            (rs\<lparr>results := results rs @ [slot\<lparr>res_values := bs\<rparr>]\<rparr>) w'))
      | LWIS_IO_ENTRY_BIAS new_bias \<Rightarrow> Some (Entry_Done entry new_bias rs w)
      | LWIS_IO_ENTRY_POLL p \<Rightarrow>
          (case lwis_entry_poll B dev p w of
             None \<Rightarrow> None
           | Some (ret, w') \<Rightarrow>
               if ret \<noteq> 0 then Some (Entry_Fail ret entry (rs\<lparr>error_code := ret\<rparr>) w')
               else Some (Entry_Done entry bias rs w'))
      | LWIS_IO_ENTRY_OTHER tag \<Rightarrow>
          Some (Entry_Fail 0 entry (rs\<lparr>error_code := - EINVAL\<rparr>) w))"

text \<open>
  The loop of \<^verbatim>\<open>process_transaction\<close> from index \<open>i\<close> on: value of \<^verbatim>\<open>ret\<close>, the entry
  array as the loop leaves it, the response, the world.  \<open>None\<close>: a poll never returns.
\<close>

fun process_io_entries ::
  "'w lwis_env \<Rightarrow> lwis_device \<Rightarrow> bool \<Rightarrow> lwis_io_entry list \<Rightarrow> int \<Rightarrow> u64
     \<Rightarrow> lwis_transaction_response \<Rightarrow> 'w
     \<Rightarrow> (int \<times> lwis_io_entry list \<times> lwis_transaction_response \<times> 'w) option" where
  "process_io_entries B dev in_irq [] i bias rs w = Some (0, [], rs, w)"
| "process_io_entries B dev in_irq (e0 # es) i bias rs w =
     (case process_entry B dev in_irq (lwis_entry_bias e0 bias) bias rs w of
        None \<Rightarrow> None
      | Some (Entry_Fail ret e rs' w') \<Rightarrow> Some (ret, e # es, rs', w')
      | Some (Entry_Done e bias' rs' w') \<Rightarrow>
          (case process_io_entries B dev in_irq es (i + 1) bias'
                  (rs'\<lparr>completion_index := i\<rparr>) w' of
             None \<Rightarrow> None
           | Some (ret, es', rs'', w'') \<Rightarrow> Some (ret, e # es', rs'', w'')))"

definition save_transaction_to_history ::
  "lwis_defs \<Rightarrow> 'w lwis_client \<Rightarrow> lwis_transaction_info \<Rightarrow> 'w lwis_client" where
  "save_transaction_to_history K client trans_info =
     client\<lparr>transaction_hist :=
              (transaction_hist client)[cur_transaction_hist_idx client := trans_info],
            cur_transaction_hist_idx :=
              (if cur_transaction_hist_idx client + 1 \<ge> TRANSACTION_DEBUG_HISTORY_SIZE K then 0
               else cur_transaction_hist_idx client + 1)\<rparr>"

text \<open>
  \<^verbatim>\<open>process_transaction\<close>: \<open>pending_events\<close> is \<open>None\<close> for the null pointer.  The entry array
  is updated in place in the store.
\<close>

definition process_transaction ::
  "lwis_defs \<Rightarrow> 'w lwis_env \<Rightarrow> lwis_device \<Rightarrow> 'w lwis_client \<Rightarrow> lwis_transaction
     \<Rightarrow> lwis_pending_event list option \<Rightarrow> bool
     \<Rightarrow> (int \<times> lwis_pending_event list option \<times> 'w lwis_client) option" where
  "process_transaction K B dev client transaction pending_events in_irq =
     (let tinfo = info transaction;
          resp_size = sizeof_response_header K + results_size_bytes (resp transaction)
      in case process_io_entries B dev in_irq (io_mem client (io_entries tinfo)) 0 0
                ((resp transaction)\<lparr>completion_index := - 1\<rparr>) (world client) of
           None \<Rightarrow> None
         | Some (ret, entries', rs, w') \<Rightarrow>
             Some (ret,
                   (case pending_events of
                      None \<Rightarrow> None
                    | Some l \<Rightarrow>
                        Some (lwis_pending_event_push l
                                (if error_code rs \<noteq> 0 then emit_error_event_id tinfo
                                 else emit_success_event_id tinfo) rs resp_size)),
                   save_transaction_to_history K
                     (client\<lparr>io_mem := (io_mem client)(io_entries tinfo := entries'),
                             world := w'\<rparr>) tinfo))"

definition cancel_transaction ::
  "lwis_defs \<Rightarrow> lwis_transaction \<Rightarrow> int \<Rightarrow> lwis_pending_event list option
     \<Rightarrow> lwis_pending_event list option" where
  "cancel_transaction K transaction err pending_events =
     (case pending_events of
        None \<Rightarrow> None
      | Some l \<Rightarrow>
          Some (lwis_pending_event_push l (emit_error_event_id (info transaction))
                  \<lparr>resp_id = id' (info transaction), error_code = err, num_entries = 0,
                   results_size_bytes = 0, completion_index = - 1, results = [],
                   alloc_size = sizeof_response_header K\<rparr>
                  (sizeof_response_header K)))"

section \<open>The transaction manager\<close>

definition spin_lock_irqsave :: "'w lwis_client \<Rightarrow> 'w lwis_client" where
  "spin_lock_irqsave client = client\<lparr>transaction_lock := True\<rparr>"

definition spin_unlock_irqrestore :: "'w lwis_client \<Rightarrow> 'w lwis_client" where
  "spin_unlock_irqrestore client = client\<lparr>transaction_lock := False\<rparr>"

text \<open>
  \<^verbatim>\<open>queue_work\<close>: the work item becomes pending; queueing it again changes nothing.  The
  file calls it without checking \<open>transaction_wq\<close>; what the kernel does on a null work
  queue is not modelled.
\<close>

definition queue_work :: "'w lwis_client \<Rightarrow> 'w lwis_client" where
  "queue_work client = client\<lparr>work_pending := True\<rparr>"

text \<open>
  The loop of \<^verbatim>\<open>transaction_work_func\<close> over the process queue: each transaction is
  unlinked, then cancelled with its own error code or executed with the lock released.  The
  work item stops being pending when the worker starts; the worker emits the collected
  events after the loop, outside the lock.
\<close>

fun work_loop ::
  "lwis_defs \<Rightarrow> 'w lwis_env \<Rightarrow> lwis_device \<Rightarrow> lwis_transaction list
     \<Rightarrow> lwis_pending_event list option \<Rightarrow> 'w lwis_client
     \<Rightarrow> (lwis_pending_event list option \<times> 'w lwis_client) option" where
  "work_loop K B dev [] pe client = Some (pe, client)"
| "work_loop K B dev (t # ts) pe client =
     (let c1 = client\<lparr>transaction_process_queue := ts\<rparr>
      in if error_code (resp t) \<noteq> 0 then
           work_loop K B dev ts (cancel_transaction K t (error_code (resp t)) pe) c1
         else
           (case process_transaction K B dev (spin_unlock_irqrestore c1) t pe False of
              None \<Rightarrow> None
            | Some (ret, pe', c2) \<Rightarrow> work_loop K B dev ts pe' (spin_lock_irqsave c2)))"

definition transaction_work_func ::
  "lwis_defs \<Rightarrow> 'w lwis_env \<Rightarrow> lwis_device \<Rightarrow> 'w lwis_client \<Rightarrow> 'w lwis_client option" where
  "transaction_work_func K B dev client =
     (let c1 = spin_lock_irqsave (client\<lparr>work_pending := False\<rparr>)
      in case work_loop K B dev (transaction_process_queue c1) (Some []) c1 of
           None \<Rightarrow> None
         | Some (pe, c2) \<Rightarrow> Some (lwis_pending_events_emit (spin_unlock_irqrestore c2) pe))"


subsection \<open>The event-trigger index\<close>

text \<open>
  \<^verbatim>\<open>event_list_find\<close> returns the first event list with the id.  A new event list is put at
  the head of the iteration order (the hash bucket order is not modelled).
\<close>

definition event_list_find ::
  "'w lwis_client \<Rightarrow> s64 \<Rightarrow> (s64 \<times> lwis_transaction list) option" where
  "event_list_find client event_id =
     find (\<lambda>l. fst l = event_id) (transaction_list client)"

definition event_list_create ::
  "lwis_defs \<Rightarrow> 'w lwis_env \<Rightarrow> 'w lwis_client \<Rightarrow> s64
     \<Rightarrow> (s64 \<times> lwis_transaction list) option \<times> 'w lwis_client" where
  "event_list_create K B client event_id =
     (case kzalloc B (world client) (sizeof_event_list K) of
        (ok, w') \<Rightarrow>
          if \<not> ok then (None, client\<lparr>world := w'\<rparr>)
          else (Some (event_id, []),
                client\<lparr>transaction_list := (event_id, []) # transaction_list client,
                       world := w'\<rparr>))"

definition event_list_find_or_create ::
  "lwis_defs \<Rightarrow> 'w lwis_env \<Rightarrow> 'w lwis_client \<Rightarrow> s64
     \<Rightarrow> (s64 \<times> lwis_transaction list) option \<times> 'w lwis_client" where
  "event_list_find_or_create K B client event_id =
     (case event_list_find client event_id of
        None \<Rightarrow> event_list_create K B client event_id
      | Some l \<Rightarrow> (Some l, client))"

text \<open>Rewriting the transactions of the event list that \<^verbatim>\<open>event_list_find\<close> returns.\<close>

fun event_list_update ::
  "s64 \<Rightarrow> (lwis_transaction list \<Rightarrow> lwis_transaction list)
     \<Rightarrow> (s64 \<times> lwis_transaction list) list \<Rightarrow> (s64 \<times> lwis_transaction list) list" where
  "event_list_update event_id f [] = []"
| "event_list_update event_id f (l # ls) =
     (if fst l = event_id then (fst l, f (snd l)) # ls
      else l # event_list_update event_id f ls)"

subsection \<open>Submission\<close>

text \<open>
  The four \<open>find_or_create\<close> calls at the end of \<^verbatim>\<open>check_transaction_param_locked\<close>, in
  the order of the short-circuit disjunction.
\<close>

definition sw_events_exist ::
  "'w lwis_env \<Rightarrow> lwis_transaction_info \<Rightarrow> 'w \<Rightarrow> bool \<times> 'w" where
  "sw_events_exist B tinfo w =
     (case device_event_state_find_or_create B w (emit_success_event_id tinfo) of
        (ok1, w1) \<Rightarrow>
          if \<not> ok1 then (False, w1)
          else (case client_event_state_find_or_create B w1 (emit_success_event_id tinfo) of
                  (ok2, w2) \<Rightarrow>
                    if \<not> ok2 then (False, w2)
                    else (case device_event_state_find_or_create B w2
                                 (emit_error_event_id tinfo) of
                            (ok3, w3) \<Rightarrow>
                              if \<not> ok3 then (False, w3)
                              else client_event_state_find_or_create B w3
                                     (emit_error_event_id tinfo))))"

definition check_sw_events ::
  "'w lwis_env \<Rightarrow> 'w lwis_client \<Rightarrow> lwis_transaction \<Rightarrow> lwis_transaction_info
     \<Rightarrow> int \<times> lwis_transaction \<times> 'w lwis_client" where
  "check_sw_events B client transaction tinfo =
     (case sw_events_exist B tinfo (world client) of
        (ok, w') \<Rightarrow>
          (if ok then 0 else - EINVAL, transaction\<lparr>info := tinfo\<rparr>, client\<lparr>world := w'\<rparr>))"

definition check_transaction_param_locked ::
  "lwis_defs \<Rightarrow> 'w lwis_env \<Rightarrow> 'w lwis_client \<Rightarrow> lwis_transaction \<Rightarrow> bool
     \<Rightarrow> int \<times> lwis_transaction \<times> 'w lwis_client" where
  "check_transaction_param_locked K B client transaction allow_counter_eq' =
     (let inf0 = (info transaction)\<lparr>current_trigger_event_counter := - 1\<rparr>;
          inf1 =
            (if trigger_event_id inf0 \<noteq> LWIS_EVENT_ID_NONE K then
               (case event_state_find B (world client) (trigger_event_id inf0) of
                  None \<Rightarrow> inf0\<lparr>current_trigger_event_counter := 0\<rparr>
                | Some event_counter \<Rightarrow> inf0\<lparr>current_trigger_event_counter := event_counter\<rparr>)
             else inf0)
      in if trigger_event_id inf1 \<noteq> LWIS_EVENT_ID_NONE K
            \<and> EXPLICIT_EVENT_COUNTER K (trigger_event_counter inf1) then
           (if trigger_event_counter inf1 = current_trigger_event_counter inf1 then
              (if allow_counter_eq' then
                 check_sw_events B client transaction
                   (inf1\<lparr>trigger_event_id := LWIS_EVENT_ID_NONE K\<rparr>)
               else (- ENOENT, transaction\<lparr>info := inf1\<rparr>, client))
            else if trigger_event_counter inf1 <s current_trigger_event_counter inf1 then
              (- ENOENT, transaction\<lparr>info := inf1\<rparr>, client)
            else check_sw_events B client transaction inf1)
         else check_sw_events B client transaction inf1)"

text \<open>
  The scan of \<^verbatim>\<open>prepare_response_locked\<close>: bytes of read data (a \<^verbatim>\<open>size_t\<close> sum, to
  which the byte width is converted) and number of reads (an \<^verbatim>\<open>int\<close> counter, converted
  where it is multiplied with a size or stored in the header).
  When the allocation fails the C code leaves a null \<^verbatim>\<open>resp\<close> pointer; the model leaves the
  response field as it was, and no caller reads it on that path.
\<close>

fun read_buf_size :: "nat \<Rightarrow> lwis_io_entry list \<Rightarrow> size_t" where
  "read_buf_size n [] = 0"
| "read_buf_size n (LWIS_IO_ENTRY_READ rw # es) = of_nat n + read_buf_size n es"
| "read_buf_size n (LWIS_IO_ENTRY_READ_BATCH b # es) = size_in_bytes b + read_buf_size n es"
| "read_buf_size n (e # es) = read_buf_size n es"

fun read_entries :: "lwis_io_entry list \<Rightarrow> nat" where
  "read_entries [] = 0"
| "read_entries (LWIS_IO_ENTRY_READ rw # es) = 1 + read_entries es"
| "read_entries (LWIS_IO_ENTRY_READ_BATCH b # es) = 1 + read_entries es"
| "read_entries (e # es) = read_entries es"

definition prepare_response_locked ::
  "lwis_defs \<Rightarrow> 'w lwis_env \<Rightarrow> lwis_device \<Rightarrow> 'w lwis_client \<Rightarrow> lwis_transaction
     \<Rightarrow> int \<times> lwis_transaction \<times> 'w lwis_client" where
  "prepare_response_locked K B dev client transaction =
     (let tinfo = (info transaction)\<lparr>id' := transaction_counter client\<rparr>;
          es = io_mem client (io_entries tinfo);
          payload = of_nat (read_entries es) * sizeof_io_result K
                      + read_buf_size (native_value_bitwidth dev div 8) es;
          resp_size = sizeof_response_header K + payload
      in case kzalloc B (world client) resp_size of
           (ok, w') \<Rightarrow>
             if \<not> ok then (- ENOMEM, transaction\<lparr>info := tinfo\<rparr>, client\<lparr>world := w'\<rparr>)
             else (0,
                   \<lparr>info = tinfo,
                    resp = \<lparr>resp_id = id' tinfo, error_code = 0, num_entries = of_nat (read_entries es),
                            results_size_bytes = payload, completion_index = 0, results = [],
                            alloc_size = resp_size\<rparr>\<rparr>,
                   client\<lparr>world := w'\<rparr>))"

text \<open>
  \<^verbatim>\<open>queue_transaction_locked\<close>.  The time stamp is written through the pointer after the
  transaction has been linked, so the linked transaction carries it.
\<close>

definition queue_transaction_locked ::
  "lwis_defs \<Rightarrow> 'w lwis_env \<Rightarrow> 'w lwis_client \<Rightarrow> lwis_transaction
     \<Rightarrow> int \<times> lwis_transaction \<times> 'w lwis_client" where
  "queue_transaction_locked K B client transaction =
     (if trigger_event_id (info transaction) = LWIS_EVENT_ID_NONE K then
        (case ktime_get_ns B (world client) of
           (now, w') \<Rightarrow>
             (let t = transaction\<lparr>info := (info transaction)\<lparr>submission_timestamp_ns := now\<rparr>\<rparr>
              in (0, t,
                  (queue_work
                     (client\<lparr>transaction_process_queue := transaction_process_queue client @ [t]\<rparr>))
                    \<lparr>world := w', transaction_counter := transaction_counter client + 1\<rparr>)))
      else
        (case event_list_find_or_create K B client (trigger_event_id (info transaction)) of
           (None, c1) \<Rightarrow> (- EINVAL, transaction, c1)
         | (Some l, c1) \<Rightarrow>
             (case ktime_get_ns B (world c1) of
                (now, w') \<Rightarrow>
                  (let t = transaction\<lparr>info := (info transaction)\<lparr>submission_timestamp_ns := now\<rparr>\<rparr>
                   in (0, t,
                       c1\<lparr>transaction_list :=
                            event_list_update (trigger_event_id (info transaction))
                              (\<lambda>ts. ts @ [t]) (transaction_list c1),
                          world := w',
                          transaction_counter := transaction_counter c1 + 1\<rparr>)))))"

definition lwis_transaction_submit_locked ::
  "lwis_defs \<Rightarrow> 'w lwis_env \<Rightarrow> lwis_device \<Rightarrow> 'w lwis_client \<Rightarrow> lwis_transaction
     \<Rightarrow> int \<times> lwis_transaction \<times> 'w lwis_client" where
  "lwis_transaction_submit_locked K B dev client transaction =
     (case check_transaction_param_locked K B client transaction
             (allow_counter_eq (info transaction)) of
        (ret, t1, c1) \<Rightarrow>
          if ret \<noteq> 0 then (ret, t1, c1)
          else (case prepare_response_locked K B dev c1 t1 of
                  (ret, t2, c2) \<Rightarrow>
                    if ret \<noteq> 0 then (ret, t2, c2)
                    else queue_transaction_locked K B c2 t2))"

subsection \<open>Event trigger dispatch\<close>

definition new_repeating_transaction_iteration ::
  "lwis_defs \<Rightarrow> 'w lwis_env \<Rightarrow> 'w lwis_client \<Rightarrow> lwis_transaction
     \<Rightarrow> lwis_transaction option \<times> 'w lwis_client" where
  "new_repeating_transaction_iteration K B client transaction =
     (case kzalloc B (world client) (sizeof_transaction K) of
        (ok1, w1) \<Rightarrow>
          if \<not> ok1 then (None, client\<lparr>world := w1\<rparr>)
          else (case kzalloc B w1
                       (sizeof_response_header K + results_size_bytes (resp transaction)) of
                  (ok2, w2) \<Rightarrow>
                    if \<not> ok2 then (None, client\<lparr>world := w2\<rparr>)
                    else (Some \<lparr>info = info transaction,
                                resp = (resp transaction)
                                  \<lparr>results := [],
                                   alloc_size := sizeof_response_header K
                                     + results_size_bytes (resp transaction)\<rparr>\<rparr>,
                          client\<lparr>world := w2\<rparr>)))"

text \<open>
  The loop of \<^verbatim>\<open>lwis_transaction_event_trigger\<close> over the event list: the transactions
  that stay in the event list, the pending events, the client.
\<close>

definition run_inline :: "lwis_defs \<Rightarrow> lwis_device \<Rightarrow> lwis_transaction \<Rightarrow> bool" where
  "run_inline K dev transaction \<longleftrightarrow>
     run_in_event_context (info transaction) \<and> dev_type dev \<noteq> DEVICE_TYPE_I2C K"

definition process_queue_add_tail ::
  "lwis_transaction \<Rightarrow> 'w lwis_client \<Rightarrow> 'w lwis_client" where
  "process_queue_add_tail t client =
     client\<lparr>transaction_process_queue := transaction_process_queue client @ [t]\<rparr>"

fun trigger_loop ::
  "lwis_defs \<Rightarrow> 'w lwis_env \<Rightarrow> lwis_device \<Rightarrow> s64 \<Rightarrow> bool \<Rightarrow> lwis_transaction list
     \<Rightarrow> lwis_pending_event list option \<Rightarrow> 'w lwis_client
     \<Rightarrow> (lwis_transaction list \<times> lwis_pending_event list option \<times> 'w lwis_client) option"
where
  "trigger_loop K B dev event_counter in_irq [] pe client = Some ([], pe, client)"
| "trigger_loop K B dev event_counter in_irq (t # ts) pe client =
     (if error_code (resp t) \<noteq> 0 then
        trigger_loop K B dev event_counter in_irq ts pe (process_queue_add_tail t client)
      else if trigger_event_counter (info t) = LWIS_EVENT_COUNTER_ON_NEXT_OCCURRENCE K
              \<or> trigger_event_counter (info t) = event_counter then
        (if run_inline K dev t then
           (case process_transaction K B dev (spin_unlock_irqrestore client) t pe in_irq of
              None \<Rightarrow> None
            | Some (ret, pe', c') \<Rightarrow>
                trigger_loop K B dev event_counter in_irq ts pe' (spin_lock_irqsave c'))
         else trigger_loop K B dev event_counter in_irq ts pe (process_queue_add_tail t client))
      else if trigger_event_counter (info t) = LWIS_EVENT_COUNTER_EVERY_TIME K then
        (case new_repeating_transaction_iteration K B client t of
           (None, c1) \<Rightarrow>
             trigger_loop K B dev event_counter in_irq ts pe
               (process_queue_add_tail (t\<lparr>resp := (resp t)\<lparr>error_code := - ENOMEM\<rparr>\<rparr>) c1)
         | (Some new_instance, c1) \<Rightarrow>
             (case (if run_inline K dev t then
                      (case process_transaction K B dev (spin_unlock_irqrestore c1) new_instance
                              pe in_irq of
                         None \<Rightarrow> None
                       | Some (ret, pe', c') \<Rightarrow> Some (pe', spin_lock_irqsave c'))
                    else Some (pe, process_queue_add_tail new_instance c1)) of
                None \<Rightarrow> None
              | Some (pe', c2) \<Rightarrow>
                  (case trigger_loop K B dev event_counter in_irq ts pe' c2 of
                     None \<Rightarrow> None
                   | Some (rest, pe'', c3) \<Rightarrow> Some (t # rest, pe'', c3))))
      else
        (case trigger_loop K B dev event_counter in_irq ts pe client of
           None \<Rightarrow> None
         | Some (rest, pe', c') \<Rightarrow> Some (t # rest, pe', c')))"

definition lwis_transaction_event_trigger ::
  "lwis_defs \<Rightarrow> 'w lwis_env \<Rightarrow> lwis_device \<Rightarrow> 'w lwis_client \<Rightarrow> s64 \<Rightarrow> s64
     \<Rightarrow> lwis_pending_event list option \<Rightarrow> bool
     \<Rightarrow> (int \<times> lwis_pending_event list option \<times> 'w lwis_client) option" where
  "lwis_transaction_event_trigger K B dev client event_id event_counter pending_events in_irq =
     (let c1 = spin_lock_irqsave client
      in case event_list_find c1 event_id of
           None \<Rightarrow> Some (0, pending_events, spin_unlock_irqrestore c1)
         | Some l \<Rightarrow>
             if snd l = [] then Some (0, pending_events, spin_unlock_irqrestore c1)
             else (case trigger_loop K B dev event_counter in_irq (snd l) pending_events c1 of
                     None \<Rightarrow> None
                   | Some (rest, pe, c2) \<Rightarrow>
                       (let c3 = c2\<lparr>transaction_list :=
                                      event_list_update event_id (\<lambda>ts. rest) (transaction_list c2)\<rparr>;
                            c4 = (if transaction_process_queue c3 \<noteq> [] then queue_work c3 else c3)
                        in Some (0, pe, spin_unlock_irqrestore c4))))"

subsection \<open>Cancel, replace, flush\<close>

fun cancel_in_list :: "s64 \<Rightarrow> lwis_transaction list \<Rightarrow> lwis_transaction list option" where
  "cancel_in_list x [] = None"
| "cancel_in_list x (t # ts) =
     (if id' (info t) = x then Some (t\<lparr>resp := (resp t)\<lparr>error_code := - ECANCELED\<rparr>\<rparr> # ts)
      else map_option ((#) t) (cancel_in_list x ts))"

fun cancel_in_lists ::
  "s64 \<Rightarrow> (s64 \<times> lwis_transaction list) list \<Rightarrow> (s64 \<times> lwis_transaction list) list option"
where
  "cancel_in_lists x [] = None"
| "cancel_in_lists x (l # ls) =
     (case cancel_in_list x (snd l) of
        Some ts \<Rightarrow> Some ((fst l, ts) # ls)
      | None \<Rightarrow> map_option ((#) l) (cancel_in_lists x ls))"

definition cancel_waiting_transaction_locked ::
  "'w lwis_client \<Rightarrow> s64 \<Rightarrow> int \<times> 'w lwis_client" where
  "cancel_waiting_transaction_locked client x =
     (case cancel_in_lists x (transaction_list client) of
        Some ls \<Rightarrow> (0, client\<lparr>transaction_list := ls\<rparr>)
      | None \<Rightarrow> (- ENOENT, client))"

definition lwis_transaction_cancel :: "'w lwis_client \<Rightarrow> s64 \<Rightarrow> int \<times> 'w lwis_client" where
  "lwis_transaction_cancel client x =
     (case cancel_waiting_transaction_locked (spin_lock_irqsave client) x of
        (ret, c) \<Rightarrow> (ret, spin_unlock_irqrestore c))"

definition lwis_transaction_replace_locked ::
  "lwis_defs \<Rightarrow> 'w lwis_env \<Rightarrow> lwis_device \<Rightarrow> 'w lwis_client \<Rightarrow> lwis_transaction
     \<Rightarrow> int \<times> lwis_transaction \<times> 'w lwis_client" where
  "lwis_transaction_replace_locked K B dev client transaction =
     (case check_transaction_param_locked K B client transaction False of
        (ret, t1, c1) \<Rightarrow>
          if ret \<noteq> 0 then (ret, t1, c1)
          else (case cancel_waiting_transaction_locked c1 (id' (info t1)) of
                  (ret, c2) \<Rightarrow>
                    if ret \<noteq> 0 then (ret, t1, c2)
                    else (case prepare_response_locked K B dev c2 t1 of
                            (ret, t3, c3) \<Rightarrow>
                              if ret \<noteq> 0 then (ret, t3, c3)
                              else queue_transaction_locked K B c3 t3)))"




section \<open>Notions used in the statements\<close>

text \<open>
  The state of \<^verbatim>\<open>lwis_entry_poll\<close> at the start of its \<open>n\<close>-th turn of the loop (counted
  from 0), if the loop gets that far; \<open>poll_read_matches\<close> says that the read performed in
  a turn that starts in world \<open>w\<close> succeeds with a value that agrees with the expected value
  under the mask.
\<close>

fun poll_iter ::
  "'w lwis_env \<Rightarrow> lwis_device \<Rightarrow> lwis_io_entry_poll \<Rightarrow> u64 \<Rightarrow> nat \<Rightarrow> u64 \<Rightarrow> 'w \<Rightarrow> (u64 \<times> 'w) option" where
  "poll_iter B dev p start 0 val w = Some (val, w)"
| "poll_iter B dev p start (Suc n) val w =
     (if val \<noteq> poll_val p then
        (case poll_body B dev p start w of
           Poll_Again val' w' \<Rightarrow> poll_iter B dev p start n val' w'
         | Poll_Done ret w' \<Rightarrow> None)
      else None)"

definition poll_read_matches :: "'w lwis_env \<Rightarrow> lwis_device \<Rightarrow> lwis_io_entry_poll \<Rightarrow> 'w \<Rightarrow> bool" where
  "poll_read_matches B dev p w \<longleftrightarrow>
     (case single_register_read B w False (poll_bid p) (poll_offset p) (native_value_bitwidth dev) of
        ((ret, val), w1) \<Rightarrow> ret = 0 \<and> val AND poll_mask p = poll_val p AND poll_mask p)"

text \<open>
  The bias in force after a run of the loop of \<^verbatim>\<open>process_transaction\<close> over the given
  entries that started with bias \<open>b\<close>: the value of the last bias entry, if there is one.
\<close>

fun bias_after :: "u64 \<Rightarrow> lwis_io_entry list \<Rightarrow> u64" where
  "bias_after b [] = b"
| "bias_after b (LWIS_IO_ENTRY_BIAS n # es) = bias_after n es"
| "bias_after b (e # es) = bias_after b es"

text \<open>
  A sequence of submissions to one client: the return code and the transaction as each
  call leaves it, and the final client; \<open>assigned_ids\<close> lists the ids of the submissions
  that returned 0, in order.
\<close>

fun submit_all ::
  "lwis_defs \<Rightarrow> 'w lwis_env \<Rightarrow> lwis_device \<Rightarrow> 'w lwis_client \<Rightarrow> lwis_transaction list
     \<Rightarrow> (int \<times> lwis_transaction) list \<times> 'w lwis_client" where
  "submit_all K B dev c [] = ([], c)"
| "submit_all K B dev c (t # ts) =
     (case lwis_transaction_submit_locked K B dev c t of
        (ret, t', c') \<Rightarrow>
          (case submit_all K B dev c' ts of (rs, c'') \<Rightarrow> ((ret, t') # rs, c'')))"

definition assigned_ids :: "(int \<times> lwis_transaction) list \<Rightarrow> s64 list" where
  "assigned_ids rs = map (\<lambda>r. id' (info (snd r))) (filter (\<lambda>r. fst r = 0) rs)"

text \<open>
  The transactions in the waiting lists of a client, in iteration order, and a transaction
  as a cancellation of id \<open>x\<close> leaves it.
\<close>

definition waiting :: "'w lwis_client \<Rightarrow> lwis_transaction list" where
  "waiting client = concat (map snd (transaction_list client))"

definition mark_canceled :: "s64 \<Rightarrow> lwis_transaction \<Rightarrow> lwis_transaction" where
  "mark_canceled x t =
     (if id' (info t) = x then t\<lparr>resp := (resp t)\<lparr>error_code := - ECANCELED\<rparr>\<rparr> else t)"

text \<open>
  Entry arrays without poll entries, on which \<^verbatim>\<open>process_transaction\<close> always returns;
  \<open>runnable mem ts\<close>: every transaction of \<open>ts\<close> that carries no error has such an array
  in the store \<open>mem\<close>.
\<close>

fun not_poll :: "lwis_io_entry \<Rightarrow> bool" where
  "not_poll (LWIS_IO_ENTRY_POLL p) = False"
| "not_poll e = True"

definition no_poll :: "lwis_io_entry list \<Rightarrow> bool" where
  "no_poll es \<longleftrightarrow> list_all not_poll es"


text \<open>
  The event \<open>event_id\<close> fires once for each counter value of the list, the pending events
  being collected in one list.
\<close>

fun fire_events ::
  "lwis_defs \<Rightarrow> 'w lwis_env \<Rightarrow> lwis_device \<Rightarrow> s64 \<Rightarrow> s64 list \<Rightarrow> bool
     \<Rightarrow> lwis_pending_event list option \<Rightarrow> 'w lwis_client
     \<Rightarrow> (lwis_pending_event list option \<times> 'w lwis_client) option" where
  "fire_events K B dev event_id [] in_irq pe c = Some (pe, c)"
| "fire_events K B dev event_id (n # ns) in_irq pe c =
     (case lwis_transaction_event_trigger K B dev c event_id n pe in_irq of
        None \<Rightarrow> None
      | Some (ret, pe', c') \<Rightarrow> fire_events K B dev event_id ns in_irq pe' c')"

text \<open>
  What executing one entry returns, told from the collaborators alone: the code, and the
  world left behind.  A write, a modify and a read return what \<^verbatim>\<open>vops.register_io\<close> returns
  (a batch read is handed its entry with the buffer pointing at the zeroed result slot); a
  poll returns what \<^verbatim>\<open>lwis_entry_poll\<close> returns; setting the bias cannot fail; an
  unrecognised type is the error \<open>-EINVAL\<close>.  \<open>None\<close>: the poll does not return.
  \<open>entries_succeed\<close> runs over entries that all return 0, each handed over with the bias
  in force applied, and gives the bias in force and the world after the last of them.
\<close>

definition entry_returns ::
  "'w lwis_env \<Rightarrow> lwis_device \<Rightarrow> bool \<Rightarrow> lwis_io_entry \<Rightarrow> 'w \<Rightarrow> (int \<times> 'w) option" where
  "entry_returns B dev in_irq entry w =
     (case entry of
        LWIS_IO_ENTRY_BIAS b \<Rightarrow> Some (0, w)
      | LWIS_IO_ENTRY_POLL p \<Rightarrow> lwis_entry_poll B dev p w
      | LWIS_IO_ENTRY_OTHER tag \<Rightarrow> Some (- EINVAL, w)
      | LWIS_IO_ENTRY_READ_BATCH b \<Rightarrow>
          (case register_io B w
                  (LWIS_IO_ENTRY_READ_BATCH (b\<lparr>buf := replicate (unat (size_in_bytes b)) 0\<rparr>))
                  in_irq (native_value_bitwidth dev) of
             ((ret, v, bs), w') \<Rightarrow> Some (ret, w'))
      | _ \<Rightarrow>
          (case register_io B w entry in_irq (native_value_bitwidth dev) of
             ((ret, v, bs), w') \<Rightarrow> Some (ret, w')))"

fun entries_succeed ::
  "'w lwis_env \<Rightarrow> lwis_device \<Rightarrow> bool \<Rightarrow> lwis_io_entry list \<Rightarrow> u64 \<Rightarrow> 'w \<Rightarrow> (u64 \<times> 'w) option"
where
  "entries_succeed B dev in_irq [] bias w = Some (bias, w)"
| "entries_succeed B dev in_irq (e # es) bias w =
     (case entry_returns B dev in_irq (lwis_entry_bias e bias) w of
        None \<Rightarrow> None
      | Some (ret, w') \<Rightarrow>
          if ret = 0 then entries_succeed B dev in_irq es (bias_after bias [e]) w' else None)"

text \<open>
  What the drain of the process queue comes to, in the words of the amended claim C5: the
  transactions are taken in order; one that carries an error code yields the cancellation
  event with that code (its error event id, its id, no results, completion index \<open>-1\<close>); an
  error-free one is executed by \<^verbatim>\<open>process_transaction\<close> outside interrupt context and yields
  the event that the execution pushes.  The result is the list of the events and the client
  after the last execution; \<open>None\<close>: an execution does not return.
\<close>

fun drain_events ::
  "lwis_defs \<Rightarrow> 'w lwis_env \<Rightarrow> lwis_device \<Rightarrow> lwis_transaction list \<Rightarrow> 'w lwis_client
     \<Rightarrow> (lwis_pending_event list \<times> 'w lwis_client) option" where
  "drain_events K B dev [] c = Some ([], c)"
| "drain_events K B dev (t # ts) c =
     (if error_code (resp t) \<noteq> 0 then
        (case drain_events K B dev ts c of
           None \<Rightarrow> None
         | Some (evs, d) \<Rightarrow>
             Some (\<lparr>pe_event_id = emit_error_event_id (info t),
                    pe_payload =
                      \<lparr>resp_id = id' (info t), error_code = error_code (resp t),
                       num_entries = 0, results_size_bytes = 0, completion_index = - 1,
                       results = [], alloc_size = sizeof_response_header K\<rparr>,
                    pe_size = sizeof_response_header K\<rparr> # evs, d))
      else
        (case process_transaction K B dev c t (Some []) False of
           None \<Rightarrow> None
         | Some (ret, pe, c1) \<Rightarrow>
             (case drain_events K B dev ts c1 of
                None \<Rightarrow> None
              | Some (evs, d) \<Rightarrow> Some ((case pe of None \<Rightarrow> [] | Some l \<Rightarrow> l) @ evs, d))))"

text \<open>
  Two clients that agree on what \<^verbatim>\<open>process_transaction\<close> reads: the store of entry arrays,
  the world and the debug history.
\<close>

definition same_store :: "'w lwis_client \<Rightarrow> 'w lwis_client \<Rightarrow> bool" where
  "same_store c d \<longleftrightarrow>
     io_mem c = io_mem d \<and> world c = world d \<and> transaction_hist c = transaction_hist d
     \<and> cur_transaction_hist_idx c = cur_transaction_hist_idx d"

text \<open>
  The new instance that claim C2 describes for a repeating transaction: the info of the
  original, hence the same entry array, and a response that is the original's header at
  the start of a fresh zeroed buffer of header size plus the original's
  \<open>results_size_bytes\<close>.  \<open>allocations\<close> is the world after the two allocations that one
  firing makes for it.  \<open>passes\<close> executes a transaction \<open>n\<close> times in a row with
  \<^verbatim>\<open>process_transaction\<close>, the world being changed by \<open>g\<close> before each execution, and
  lists the events that the executions push; \<open>None\<close>: an execution does not return.
\<close>

definition iteration_of :: "lwis_defs \<Rightarrow> lwis_transaction \<Rightarrow> lwis_transaction" where
  "iteration_of K t =
     \<lparr>info = info t,
      resp = (resp t)\<lparr>results := [],
                      alloc_size := sizeof_response_header K + results_size_bytes (resp t)\<rparr>\<rparr>"

definition allocations :: "lwis_defs \<Rightarrow> 'w lwis_env \<Rightarrow> lwis_transaction \<Rightarrow> 'w \<Rightarrow> 'w" where
  "allocations K B t w =
     snd (kzalloc B (snd (kzalloc B w (sizeof_transaction K)))
            (sizeof_response_header K + results_size_bytes (resp t)))"

fun passes ::
  "lwis_defs \<Rightarrow> 'w lwis_env \<Rightarrow> lwis_device \<Rightarrow> bool \<Rightarrow> ('w \<Rightarrow> 'w) \<Rightarrow> lwis_transaction \<Rightarrow> nat
     \<Rightarrow> 'w lwis_client \<Rightarrow> (lwis_pending_event list \<times> 'w lwis_client) option" where
  "passes K B dev in_irq g u 0 c = Some ([], c)"
| "passes K B dev in_irq g u (Suc n) c =
     (case process_transaction K B dev (c\<lparr>world := g (world c)\<rparr>) u (Some []) in_irq of
        None \<Rightarrow> None
      | Some (ret, pe, c1) \<Rightarrow>
          (case passes K B dev in_irq g u n c1 of
             None \<Rightarrow> None
           | Some (evs, d) \<Rightarrow> Some ((case pe of None \<Rightarrow> [] | Some l \<Rightarrow> l) @ evs, d)))"

section \<open>A simulated device\<close>

text \<open>
  A well-behaved backend for concrete runs: a register file indexed by block id and offset
  (an access to a negative block id fails), a clock that advances by one millisecond per
  sleep, an allocator that never fails, and a table of device event counters.
\<close>

record sim_world =
  regs :: "int \<times> u64 \<Rightarrow> u64"
  clock_ms :: u64
  event_counters :: "s64 \<Rightarrow> s64 option"

definition sim_register_io ::
  "sim_world \<Rightarrow> lwis_io_entry \<Rightarrow> bool \<Rightarrow> nat \<Rightarrow> (int \<times> u64 \<times> 8 word list) \<times> sim_world" where
  "sim_register_io w entry in_irq bitwidth =
     (case entry of
        LWIS_IO_ENTRY_WRITE rw \<Rightarrow>
          if rw_bid rw < 0 then ((- EINVAL, 0, []), w)
          else ((0, 0, []), w\<lparr>regs := (regs w)((rw_bid rw, rw_offset rw) := rw_val rw)\<rparr>)
      | LWIS_IO_ENTRY_READ rw \<Rightarrow>
          if rw_bid rw < 0 then ((- EINVAL, 0, []), w)
          else ((0, regs w (rw_bid rw, rw_offset rw), []), w)
      | LWIS_IO_ENTRY_MODIFY m \<Rightarrow>
          if mod_bid m < 0 then ((- EINVAL, 0, []), w)
          else ((0, 0, []),
                w\<lparr>regs := (regs w)((mod_bid m, mod_offset m) :=
                       (regs w (mod_bid m, mod_offset m) AND NOT (mod_val_mask m))
                         OR (mod_val m AND mod_val_mask m))\<rparr>)
      | LWIS_IO_ENTRY_READ_BATCH b \<Rightarrow> ((0, 0, replicate (unat (size_in_bytes b)) 0), w)
      | LWIS_IO_ENTRY_WRITE_BATCH b \<Rightarrow> ((0, 0, []), w)
      | _ \<Rightarrow> ((- EINVAL, 0, []), w))"

definition sim_env :: "sim_world lwis_env" where
  "sim_env =
     \<lparr>register_io = sim_register_io,
      single_register_read = (\<lambda>w non_blocking bid off bitwidth. ((0, regs w (bid, off)), w)),
      get_time_ms = (\<lambda>w. (clock_ms w, w)),
      ktime_get_ns = (\<lambda>w. (clock_ms w * 1000000, w)),
      usleep_range = (\<lambda>w. w\<lparr>clock_ms := clock_ms w + 1\<rparr>),
      kzalloc = (\<lambda>w n. (True, w)),
      event_state_find = (\<lambda>w e. event_counters w e),
      device_event_state_find_or_create =
        (\<lambda>w e. (True, case event_counters w e of
                        None \<Rightarrow> w\<lparr>event_counters := (event_counters w)(e \<mapsto> 0)\<rparr>
                      | Some n \<Rightarrow> w)),
      client_event_state_find_or_create = (\<lambda>w e. (True, w))\<rparr>"

definition sim_defs :: lwis_defs where
  "sim_defs =
     \<lparr>LWIS_EVENT_ID_NONE = 0, LWIS_EVENT_ID_CLIENT_CLEANUP = 2,
      LWIS_EVENT_COUNTER_ON_NEXT_OCCURRENCE = - 1, LWIS_EVENT_COUNTER_EVERY_TIME = - 2,
      DEVICE_TYPE_I2C = 1, TRANSACTION_DEBUG_HISTORY_SIZE = 8,
      sizeof_response_header = 32, sizeof_io_result = 24, sizeof_transaction = 128,
      sizeof_event_list = 40\<rparr>"

definition sim_dev :: lwis_device where
  "sim_dev = \<lparr>native_value_bitwidth = 32, dev_type = 0, enabled = 1\<rparr>"

definition sim_world0 :: sim_world where
  "sim_world0 = \<lparr>regs = (\<lambda>r. 0), clock_ms = 0, event_counters = Map.empty\<rparr>"

definition sim_info :: lwis_transaction_info where
  "sim_info =
     \<lparr>trigger_event_id = 0, trigger_event_counter = 0, io_entries = 0,
      emit_success_event_id = 100, emit_error_event_id = 101, run_in_event_context = False,
      allow_counter_eq = False, id' = 0, current_trigger_event_counter = 0,
      submission_timestamp_ns = 0\<rparr>"

definition sim_resp :: lwis_transaction_response where
  "sim_resp =
     \<lparr>resp_id = 0, error_code = 0, num_entries = 0, results_size_bytes = 0,
      completion_index = 0, results = [], alloc_size = 32\<rparr>"

definition sim_client :: "sim_world lwis_client" where
  "sim_client =
     \<lparr>transaction_list = [], transaction_process_queue = [], transaction_counter = 0,
      transaction_wq = True, work_pending = False, transaction_lock = False,
      transaction_hist = replicate 8 sim_info, cur_transaction_hist_idx = 0,
      io_mem = (\<lambda>a. []), emitted = [], world = sim_world0\<rparr>"

text \<open>An immediate transaction that writes 5 to register \<open>0x10\<close> and reads it back.\<close>

definition rt_entries :: "lwis_io_entry list" where
  "rt_entries = [LWIS_IO_ENTRY_WRITE \<lparr>rw_bid = 0, rw_offset = 0x10, rw_val = 5\<rparr>,
                 LWIS_IO_ENTRY_READ \<lparr>rw_bid = 0, rw_offset = 0x10, rw_val = 0\<rparr>]"

definition rt_client :: "sim_world lwis_client" where
  "rt_client = sim_client\<lparr>io_mem := (\<lambda>a. [])(1 := rt_entries)\<rparr>"

definition rt_transaction :: lwis_transaction where
  "rt_transaction = \<lparr>info = sim_info\<lparr>io_entries := 1\<rparr>, resp = sim_resp\<rparr>"

text \<open>Entries whose second entry fails: the read addresses a negative block id.\<close>

definition fail_entries :: "lwis_io_entry list" where
  "fail_entries = [LWIS_IO_ENTRY_WRITE \<lparr>rw_bid = 0, rw_offset = 0x10, rw_val = 5\<rparr>,
                   LWIS_IO_ENTRY_READ \<lparr>rw_bid = - 1, rw_offset = 0x10, rw_val = 0\<rparr>,
                   LWIS_IO_ENTRY_WRITE \<lparr>rw_bid = 0, rw_offset = 0x30, rw_val = 7\<rparr>]"

definition fail_client :: "sim_world lwis_client" where
  "fail_client = sim_client\<lparr>io_mem := (\<lambda>a. [])(1 := fail_entries)\<rparr>"

text \<open>
  Entries that set a bias and whose third entry, a write to a negative block id, fails;
  entries whose first entry has an unrecognised type.
\<close>

definition badw_entries :: "lwis_io_entry list" where
  "badw_entries = [LWIS_IO_ENTRY_BIAS 0x100,
                   LWIS_IO_ENTRY_WRITE \<lparr>rw_bid = 0, rw_offset = 0x10, rw_val = 5\<rparr>,
                   LWIS_IO_ENTRY_WRITE \<lparr>rw_bid = - 1, rw_offset = 0x20, rw_val = 6\<rparr>,
                   LWIS_IO_ENTRY_WRITE \<lparr>rw_bid = 0, rw_offset = 0x30, rw_val = 7\<rparr>]"

definition badw_client :: "sim_world lwis_client" where
  "badw_client = sim_client\<lparr>io_mem := (\<lambda>a. [])(1 := badw_entries)\<rparr>"

definition other_entries :: "lwis_io_entry list" where
  "other_entries = [LWIS_IO_ENTRY_OTHER 99,
                    LWIS_IO_ENTRY_WRITE \<lparr>rw_bid = 0, rw_offset = 0x10, rw_val = 5\<rparr>]"

definition other_client :: "sim_world lwis_client" where
  "other_client = sim_client\<lparr>io_mem := (\<lambda>a. [])(1 := other_entries)\<rparr>"

text \<open>
  Entries whose second entry polls register \<open>0x20\<close>, which reads 0, for the value 3 with a
  timeout of 1 ms.
\<close>

definition pollf_entries :: "lwis_io_entry list" where
  "pollf_entries = [LWIS_IO_ENTRY_MODIFY \<lparr>mod_bid = 0, mod_offset = 0x10, mod_val = 0xFF,
                                         mod_val_mask = 0x0F\<rparr>,
                    LWIS_IO_ENTRY_POLL \<lparr>poll_bid = 0, poll_offset = 0x20, poll_val = 0x3,
                                       poll_mask = 0xFF, poll_timeout_ms = 1\<rparr>,
                    LWIS_IO_ENTRY_WRITE \<lparr>rw_bid = 0, rw_offset = 0x30, rw_val = 7\<rparr>]"

definition pollf_client :: "sim_world lwis_client" where
  "pollf_client = sim_client\<lparr>io_mem := (\<lambda>a. [])(1 := pollf_entries)\<rparr>"

text \<open>
  A repeating transaction (trigger counter \<open>EVERY_TIME\<close>) on event 7 that runs in event
  context: it sets the bias to \<open>0x100\<close> and writes 5 at offset \<open>0x10\<close>.
\<close>

definition bias_entries :: "lwis_io_entry list" where
  "bias_entries = [LWIS_IO_ENTRY_BIAS 0x100,
                   LWIS_IO_ENTRY_WRITE \<lparr>rw_bid = 0, rw_offset = 0x10, rw_val = 5\<rparr>]"

definition bias_transaction :: lwis_transaction where
  "bias_transaction =
     \<lparr>info = sim_info\<lparr>trigger_event_id := 7, trigger_event_counter := - 2, io_entries := 1,
                       run_in_event_context := True\<rparr>,
      resp = sim_resp\<rparr>"

definition bias_client :: "sim_world lwis_client" where
  "bias_client = sim_client\<lparr>io_mem := (\<lambda>a. [])(1 := bias_entries),
                            transaction_list := [(7, [bias_transaction])]\<rparr>"

text \<open>
  Event 7 has occurred five times; a transaction that waits for its third occurrence.
\<close>

definition late_world :: sim_world where
  "late_world = sim_world0\<lparr>event_counters := [7 \<mapsto> 5]\<rparr>"



text \<open>
  A client with one waiting transaction, of id 5, on event 7; the same client when event 7
  has occurred five times; a transaction that waits for occurrence 5 and allows
  counter-equals; a replacement for transaction 5.
\<close>

definition cancel_transaction' :: lwis_transaction where
  "cancel_transaction' =
     \<lparr>info = sim_info\<lparr>trigger_event_id := 7, trigger_event_counter := 9, id' := 5\<rparr>,
      resp = sim_resp\<rparr>"

definition cancel_client :: "sim_world lwis_client" where
  "cancel_client = sim_client\<lparr>transaction_list := [(7, [cancel_transaction'])]\<rparr>"

definition eq_transaction :: lwis_transaction where
  "eq_transaction =
     \<lparr>info = sim_info\<lparr>trigger_event_id := 7, trigger_event_counter := 5, id' := 5,
                       allow_counter_eq := True\<rparr>,
      resp = sim_resp\<rparr>"

definition eq_client :: "sim_world lwis_client" where
  "eq_client = cancel_client\<lparr>world := late_world\<rparr>"

definition replacement :: lwis_transaction where
  "replacement =
     \<lparr>info = sim_info\<lparr>trigger_event_id := 7, trigger_event_counter := 9, id' := 5\<rparr>,
      resp = sim_resp\<rparr>"


definition next_transaction :: lwis_transaction where
  "next_transaction =
     \<lparr>info = sim_info\<lparr>trigger_event_id := 7, trigger_event_counter := - 1, id' := 4\<rparr>,
      resp = sim_resp\<rparr>"





text \<open>
  A prepared repeating write/read transaction of id 4 on event 7, waiting alone in its event
  list; the same with \<open>run_in_event_context\<close> set; an allocator that refuses the 60 bytes of
  its response; the event that one execution of it emits.
\<close>

definition every_transaction :: lwis_transaction where
  "every_transaction =
     \<lparr>info = sim_info\<lparr>trigger_event_id := 7, trigger_event_counter := - 2, io_entries := 1,
                       id' := 4\<rparr>,
      resp = sim_resp\<lparr>resp_id := 4, num_entries := 1, results_size_bytes := 28,
                       alloc_size := 60\<rparr>\<rparr>"

definition every_client :: "sim_world lwis_client" where
  "every_client = sim_client\<lparr>io_mem := (\<lambda>a. [])(1 := rt_entries),
                             transaction_list := [(7, [every_transaction])]\<rparr>"

definition every_inline :: lwis_transaction where
  "every_inline = every_transaction\<lparr>info := (info every_transaction)\<lparr>run_in_event_context := True\<rparr>\<rparr>"

definition every_inline_client :: "sim_world lwis_client" where
  "every_inline_client = every_client\<lparr>transaction_list := [(7, [every_inline])]\<rparr>"

definition nomem_env :: "sim_world lwis_env" where
  "nomem_env = sim_env\<lparr>kzalloc := (\<lambda>w n. (n \<noteq> 60, w))\<rparr>"

definition every_event :: lwis_pending_event where
  "every_event =
     \<lparr>pe_event_id = 100,
      pe_payload =
        \<lparr>resp_id = 4, error_code = 0, num_entries = 1, results_size_bytes = 28,
         completion_index = 1,
         results = [\<lparr>res_bid = 0, res_offset = 0x10, num_value_bytes = 4,
                     res_values = [5, 0, 0, 0]\<rparr>],
         alloc_size = 60\<rparr>,
      pe_size = 60\<rparr>"

section \<open>Unfolding rules for concrete runs\<close>

lemmas sim_simps = sim_env_def sim_dev_def sim_defs_def sim_world0_def sim_info_def sim_resp_def
  sim_client_def sim_register_io_def

lemmas errno_simps = ENOENT_def ENOMEM_def ENODEV_def EINVAL_def ETIMEDOUT_def ECANCELED_def

lemmas interp_simps = process_transaction_def process_entry_def process_write_def
  lwis_entry_bias_def save_transaction_to_history_def lwis_pending_event_push_def
  value_bytes_def Let_def

lemmas manager_simps = lwis_transaction_submit_locked_def check_transaction_param_locked_def
  check_sw_events_def sw_events_exist_def prepare_response_locked_def
  queue_transaction_locked_def queue_work_def EXPLICIT_EVENT_COUNTER_def
  transaction_work_func_def spin_lock_irqsave_def spin_unlock_irqrestore_def
  lwis_pending_events_emit_def cancel_transaction_def event_list_find_def
  event_list_find_or_create_def event_list_create_def

lemmas trigger_simps = lwis_transaction_event_trigger_def event_list_find_def
  new_repeating_transaction_iteration_def run_inline_def process_queue_add_tail_def
  spin_lock_irqsave_def spin_unlock_irqrestore_def queue_work_def

lemmas cancel_simps = lwis_transaction_cancel_def cancel_waiting_transaction_locked_def
  lwis_transaction_replace_locked_def waiting_def mark_canceled_def


lemmas every_simps = every_transaction_def every_client_def every_inline_def
  every_inline_client_def every_event_def rt_entries_def

lemmas entry_simps = entry_returns_def lwis_entry_bias_def

lemma replicate_4: "replicate 4 x = [x, x, x, x]"
  by (simp add: numeral_eq_Suc)

section \<open>The poll entry\<close>

lemma not_neq: "NOT (x::64 word) \<noteq> x"
proof
  assume "NOT x = x"
  then have "bit (NOT x) 0 = bit x 0" by simp
  then show False by (simp add: bit_not_iff)
qed

lemma poll_body_again_neq:
  "poll_body B dev p start w = Poll_Again v w' \<Longrightarrow> v \<noteq> poll_val p"
  by (auto simp: poll_body_def split: prod.splits if_splits)

lemma poll_body_done_zero:
  "poll_body B dev p start w = Poll_Done r w' \<Longrightarrow> r = 0 \<longleftrightarrow> poll_read_matches B dev p w"
  by (auto simp: poll_body_def poll_read_matches_def ETIMEDOUT_def split: prod.splits if_splits)

lemma poll_body_matches:
  "poll_read_matches B dev p w \<Longrightarrow> \<exists>w'. poll_body B dev p start w = Poll_Done 0 w'"
  by (auto simp: poll_body_def poll_read_matches_def split: prod.splits if_splits)

lemma poll_iter_neq:
  "poll_iter B dev p start k val w = Some (v, wk) \<Longrightarrow> val \<noteq> poll_val p \<Longrightarrow> v \<noteq> poll_val p"
  by (induction k arbitrary: val w) (auto split: if_splits poll_step.splits dest: poll_body_again_neq)

lemma poll_loop_iter:
  "poll_iter B dev p start k val w = Some (v, wk) \<Longrightarrow>
   poll_loop B dev p start val w = poll_loop B dev p start v wk"
proof (induction k arbitrary: val w)
  case 0 then show ?case by simp
next
  case (Suc k)
  then show ?case
    by (subst poll_loop.simps) (auto split: if_splits poll_step.splits)
qed

lemma poll_loop_done:
  "val \<noteq> poll_val p \<Longrightarrow> poll_body B dev p start w = Poll_Done r w' \<Longrightarrow>
   poll_loop B dev p start val w = Some (r, w')"
  by (subst poll_loop.simps) simp

lemma poll_loop_returns:
  "poll_loop B dev p start val w = Some y \<Longrightarrow> val \<noteq> poll_val p \<longrightarrow>
   (\<exists>k v wk. poll_iter B dev p start k val w = Some (v, wk) \<and> poll_body B dev p start wk = Poll_Done (fst y) (snd y))"
proof (rule poll_loop.raw_induct [where P = "\<lambda>B dev p start val w y. val \<noteq> poll_val p \<longrightarrow>
   (\<exists>k v wk. poll_iter B dev p start k val w = Some (v, wk) \<and> poll_body B dev p start wk = Poll_Done (fst y) (snd y))"], goal_cases)
  case (1 f B dev p start val w y)
  show ?case
  proof
    assume neq: "val \<noteq> poll_val p"
    show "\<exists>k v wk. poll_iter B dev p start k val w = Some (v, wk) \<and> poll_body B dev p start wk = Poll_Done (fst y) (snd y)"
    proof (cases "poll_body B dev p start w")
      case (Poll_Done r w')
      with 1 neq have "y = (r, w')" by simp
      with Poll_Done have "poll_iter B dev p start 0 val w = Some (val, w) \<and> poll_body B dev p start w = Poll_Done (fst y) (snd y)" by simp
      then show ?thesis by blast
    next
      case (Poll_Again v w')
      with 1 neq have "f B dev p start v w' = Some y" by simp
      moreover have "v \<noteq> poll_val p" using Poll_Again by (rule poll_body_again_neq)
      ultimately obtain k v' wk where k: "poll_iter B dev p start k v w' = Some (v', wk)" "poll_body B dev p start wk = Poll_Done (fst y) (snd y)"
        using 1 by blast
      then have "poll_iter B dev p start (Suc k) val w = Some (v', wk)" using Poll_Again neq by simp
      then show ?thesis using k(2) by blast
    qed
  qed
qed assumption

lemma poll_turn:
  assumes t0: "get_time_ms B w = (start, w0)"
    and it: "poll_iter B dev p start k (NOT (poll_val p)) w0 = Some (v, wk)"
    and body: "poll_body B dev p start wk = Poll_Done r w'"
  shows "lwis_entry_poll B dev p w = Some (r, w')"
proof -
  have "v \<noteq> poll_val p" using it not_neq by (rule poll_iter_neq)
  then have "poll_loop B dev p start v wk = Some (r, w')" using body by (rule poll_loop_done)
  then show ?thesis using t0 poll_loop_iter [OF it] by (simp add: lwis_entry_poll_def)
qed

text \<open>
  Claim C4.  \<^verbatim>\<open>lwis_entry_poll\<close> returns 0 exactly when a read performed in one of its turns
  succeeds with a value equal to the expected value under the mask.  A turn whose read
  fails makes the poll return that error code; a turn whose read matches makes it return 0; a
  turn whose read does not match and whose elapsed time exceeds \<open>timeout_ms\<close> makes it
  return \<open>-ETIMEDOUT\<close>.  With mask \<open>0xFF\<close>, expected value \<open>0x3\<close>, a 10 ms timeout and
  registers that always read 0, the poll returns \<open>-ETIMEDOUT\<close>.
\<close>

theorem lwis_entry_poll_success_iff_match:
  assumes t0: "get_time_ms B w = (start, w0)"
  shows "(lwis_entry_poll B dev p w = Some (r, w') \<longrightarrow>
           (r = 0 \<longleftrightarrow> (\<exists>k v wk. poll_iter B dev p start k (NOT (poll_val p)) w0 = Some (v, wk)
                                \<and> poll_read_matches B dev p wk)))
       \<and> (\<forall>k v wk ret val w1.
            poll_iter B dev p start k (NOT (poll_val p)) w0 = Some (v, wk)
            \<and> single_register_read B wk False (poll_bid p) (poll_offset p)
                 (native_value_bitwidth dev) = ((ret, val), w1) \<longrightarrow>
              (ret \<noteq> 0 \<longrightarrow> lwis_entry_poll B dev p w = Some (ret, w1))
            \<and> (ret = 0 \<and> val AND poll_mask p = poll_val p AND poll_mask p \<longrightarrow>
                 lwis_entry_poll B dev p w = Some (0, w1))
            \<and> (ret = 0 \<and> val AND poll_mask p \<noteq> poll_val p AND poll_mask p
                 \<and> fst (get_time_ms B w1) - start > poll_timeout_ms p \<longrightarrow>
                 lwis_entry_poll B dev p w = Some (- ETIMEDOUT, snd (get_time_ms B w1))))
       \<and> lwis_entry_poll sim_env sim_dev
            \<lparr>poll_bid = 0, poll_offset = 0x20, poll_val = 0x3, poll_mask = 0xFF,
             poll_timeout_ms = 10\<rparr> sim_world0
          = Some (- ETIMEDOUT, sim_world0\<lparr>clock_ms := 11\<rparr>)"
proof (intro conjI impI allI)
  assume ret: "lwis_entry_poll B dev p w = Some (r, w')"
  then have "poll_loop B dev p start (NOT (poll_val p)) w0 = Some (r, w')"
    using t0 by (simp add: lwis_entry_poll_def)
  from poll_loop_returns [OF this] not_neq
  obtain k v wk where it: "poll_iter B dev p start k (NOT (poll_val p)) w0 = Some (v, wk)"
    and body: "poll_body B dev p start wk = Poll_Done r w'" by fastforce
  show "r = 0 \<longleftrightarrow> (\<exists>k v wk. poll_iter B dev p start k (NOT (poll_val p)) w0 = Some (v, wk)
                                \<and> poll_read_matches B dev p wk)"
  proof
    assume "r = 0"
    then have "poll_read_matches B dev p wk" using poll_body_done_zero [OF body] by simp
    then show "\<exists>k v wk. poll_iter B dev p start k (NOT (poll_val p)) w0 = Some (v, wk)
                                \<and> poll_read_matches B dev p wk" using it by blast
  next
    assume "\<exists>k v wk. poll_iter B dev p start k (NOT (poll_val p)) w0 = Some (v, wk)
                                \<and> poll_read_matches B dev p wk"
    then obtain k' v' wk' where it': "poll_iter B dev p start k' (NOT (poll_val p)) w0 = Some (v', wk')"
      and m: "poll_read_matches B dev p wk'" by blast
    from poll_body_matches [OF m] obtain w2 where "poll_body B dev p start wk' = Poll_Done 0 w2" by blast
    from poll_turn [OF t0 it' this] ret show "r = 0" by simp
  qed
next
  fix k v wk ret val w1
  assume h: "poll_iter B dev p start k (NOT (poll_val p)) w0 = Some (v, wk)
            \<and> single_register_read B wk False (poll_bid p) (poll_offset p)
                 (native_value_bitwidth dev) = ((ret, val), w1)"
  { assume "ret \<noteq> 0"
    then have "poll_body B dev p start wk = Poll_Done ret w1" using h by (simp add: poll_body_def)
    with h show "lwis_entry_poll B dev p w = Some (ret, w1)" using poll_turn [OF t0] by blast }
  { assume "ret = 0 \<and> val AND poll_mask p = poll_val p AND poll_mask p"
    then have "poll_body B dev p start wk = Poll_Done 0 w1" using h by (simp add: poll_body_def)
    with h show "lwis_entry_poll B dev p w = Some (0, w1)" using poll_turn [OF t0] by blast }
  { assume "ret = 0 \<and> val AND poll_mask p \<noteq> poll_val p AND poll_mask p
                 \<and> fst (get_time_ms B w1) - start > poll_timeout_ms p"
    then have "poll_body B dev p start wk = Poll_Done (- ETIMEDOUT) (snd (get_time_ms B w1))" using h
      by (cases "get_time_ms B w1") (simp add: poll_body_def)
    with h show "lwis_entry_poll B dev p w = Some (- ETIMEDOUT, snd (get_time_ms B w1))" using poll_turn [OF t0] by blast }
next
  show "lwis_entry_poll sim_env sim_dev
            \<lparr>poll_bid = 0, poll_offset = 0x20, poll_val = 0x3, poll_mask = 0xFF,
             poll_timeout_ms = 10\<rparr> sim_world0
          = Some (- ETIMEDOUT, sim_world0\<lparr>clock_ms := 11\<rparr>)"
    by (simp add: lwis_entry_poll_def poll_loop.simps poll_body_def sim_env_def sim_world0_def sim_dev_def)
qed

theorem lwis_entry_poll_match_witness:
  "get_time_ms sim_env (sim_world0\<lparr>regs := (\<lambda>r. 0x103)\<rparr>) = (0, sim_world0\<lparr>regs := (\<lambda>r. 0x103)\<rparr>)
   \<and> lwis_entry_poll sim_env sim_dev
        \<lparr>poll_bid = 0, poll_offset = 0x20, poll_val = 0x3, poll_mask = 0xFF, poll_timeout_ms = 10\<rparr>
        (sim_world0\<lparr>regs := (\<lambda>r. 0x103)\<rparr>)
      = Some (0, sim_world0\<lparr>regs := (\<lambda>r. 0x103)\<rparr>)"
proof -
  let ?W = "sim_world0\<lparr>regs := (\<lambda>r. 0x103)\<rparr>"
  let ?P = "\<lparr>poll_bid = 0, poll_offset = 0x20, poll_val = 0x3, poll_mask = 0xFF, poll_timeout_ms = 10\<rparr>"
  have t0: "get_time_ms sim_env ?W = (0, ?W)"
    by (simp add: sim_env_def sim_world0_def)
  have it: "poll_iter sim_env sim_dev ?P 0 0 (NOT (poll_val ?P)) ?W = Some (NOT (poll_val ?P), ?W)"
    by simp
  have rd: "single_register_read sim_env ?W False (poll_bid ?P) (poll_offset ?P)
              (native_value_bitwidth sim_dev) = ((0, 0x103), ?W)"
    by (simp add: sim_env_def sim_world0_def)
  have m: "(0x103 :: u64) AND poll_mask ?P = poll_val ?P AND poll_mask ?P" by simp
  from lwis_entry_poll_success_iff_match [OF t0, of sim_dev ?P] it rd m
  have "lwis_entry_poll sim_env sim_dev ?P ?W = Some (0, ?W)" by blast
  with t0 show ?thesis by simp
qed

section \<open>Executing the entries of a transaction\<close>

lemma entry_returns_fail:
  assumes "entry_returns B dev irq e w = Some (err, w')" and "err \<noteq> 0"
  shows "\<exists>e' rs'. process_entry B dev irq e b rs w =
            Some (Entry_Fail (case e of LWIS_IO_ENTRY_OTHER tag \<Rightarrow> 0 | _ \<Rightarrow> err) e' rs' w')
          \<and> error_code rs' = err \<and> completion_index rs' = completion_index rs"
  using assms
  by (cases e)
     (auto simp: entry_returns_def process_entry_def process_write_def Let_def
           split: prod.splits if_splits option.splits)

lemma entry_returns_done:
  assumes "entry_returns B dev irq e w = Some (0, w')"
  shows "\<exists>e' rs'. process_entry B dev irq e b rs w =
            Some (Entry_Done e' (bias_after b [e]) rs' w')
          \<and> error_code rs' = error_code rs \<and> completion_index rs' = completion_index rs"
  using assms
  by (cases e)
     (auto simp: entry_returns_def process_entry_def process_write_def Let_def EINVAL_def
           split: prod.splits if_splits option.splits)

lemma bias_after_bias [simp]: "bias_after b [lwis_entry_bias e b'] = bias_after b [e]"
  by (cases e) (simp_all add: lwis_entry_bias_def)

lemma entries_succeed_prefix:
  "entries_succeed B dev irq xs b w = Some (b', w') \<Longrightarrow>
   \<exists>xs' rs'. length xs' = length xs
     \<and> error_code rs' = error_code rs
     \<and> completion_index rs' = (if xs = [] then completion_index rs else i + int (length xs) - 1)
     \<and> (\<forall>ys. process_io_entries B dev irq (xs @ ys) i b rs w =
           (case process_io_entries B dev irq ys (i + int (length xs)) b' rs' w' of
              None \<Rightarrow> None
            | Some (r2, ys', rs2, w2) \<Rightarrow> Some (r2, xs' @ ys', rs2, w2)))"
proof (induction xs arbitrary: i b rs w)
  case Nil
  then show ?case by (auto split: option.splits)
next
  case (Cons x xs)
  from Cons.prems obtain w1 where
    r: "entry_returns B dev irq (lwis_entry_bias x b) w = Some (0, w1)"
    and rest: "entries_succeed B dev irq xs (bias_after b [x]) w1 = Some (b', w')"
    by (auto split: option.splits if_splits)
  from entry_returns_done [OF r, of b rs] obtain e1 rs1 where
    pe: "process_entry B dev irq (lwis_entry_bias x b) b rs w =
           Some (Entry_Done e1 (bias_after b [x]) rs1 w1)"
    and e1: "error_code rs1 = error_code rs" by auto
  from Cons.IH [OF rest, of "rs1\<lparr>completion_index := i\<rparr>" "i + 1"] obtain xs' rs' where
    len: "length xs' = length xs"
    and err: "error_code rs' = error_code (rs1\<lparr>completion_index := i\<rparr>)"
    and ci: "completion_index rs' =
               (if xs = [] then completion_index (rs1\<lparr>completion_index := i\<rparr>)
                else i + 1 + int (length xs) - 1)"
    and app: "\<And>ys. process_io_entries B dev irq (xs @ ys) (i + 1) (bias_after b [x])
                     (rs1\<lparr>completion_index := i\<rparr>) w1 =
           (case process_io_entries B dev irq ys (i + 1 + int (length xs)) b' rs' w' of
              None \<Rightarrow> None
            | Some (r2, ys', rs2, w2) \<Rightarrow> Some (r2, xs' @ ys', rs2, w2))"
    by blast
  have idx: "i + 1 + int (length xs) = i + int (length (x # xs))" by simp
  have "\<forall>ys. process_io_entries B dev irq ((x # xs) @ ys) i b rs w =
           (case process_io_entries B dev irq ys (i + int (length (x # xs))) b' rs' w' of
              None \<Rightarrow> None
            | Some (r2, ys', rs2, w2) \<Rightarrow> Some (r2, (e1 # xs') @ ys', rs2, w2))"
    using pe app unfolding idx by (simp split: option.splits)
  moreover have "length (e1 # xs') = length (x # xs)" using len by simp
  moreover have "error_code rs' = error_code rs" using err e1 by simp
  moreover have "completion_index rs' = i + int (length (x # xs)) - 1"
    using ci by (simp split: if_splits)
  ultimately show ?case by (intro exI [of _ "e1 # xs'"] exI [of _ rs']) simp
qed

text \<open>
  Claim C3.  \<^verbatim>\<open>process_transaction\<close> stops at the first entry whose execution returns an
  error.  When the entries before \<open>e\<close> all return 0 and \<open>e\<close>, handed over with the bias in
  force, returns the code \<open>err \<noteq> 0\<close> (from \<^verbatim>\<open>register_io\<close> or the poll; \<open>-EINVAL\<close> for an
  unrecognised type, for which the function itself returns 0), then the response pushed with
  the error event has error code \<open>err\<close> and completion index (index of \<open>e\<close>) - 1, which is
  \<open>-1\<close> when \<open>e\<close> is the first entry; the world is the one the failing entry left and the
  entries after \<open>e\<close> are as they were.  When all entries return 0, the error code is left as
  it was and the completion index is the last index.  The immediate transaction [write 5 to
  \<open>0x10\<close>, read \<open>0x10\<close>], submitted to the simulated device and run by the worker, is
  emitted with error code 0, completion index 1 and the read result 5; the entries [set bias
  \<open>0x100\<close>, write \<open>0x10\<close>, write to block \<open>-1\<close>, write \<open>0x30\<close>] stop at the third
  entry with its error code and completion index 1, the fourth write not being made.
\<close>

theorem process_transaction_stops_at_first_error:
  "(io_mem c (io_entries (info t)) = pre @ e # post
      \<and> entries_succeed B dev irq pre 0 (world c) = Some (bias, w1)
      \<and> entry_returns B dev irq (lwis_entry_bias e bias) w1 = Some (err, w2)
      \<and> err \<noteq> 0 \<longrightarrow>
      (\<exists>rs c'. process_transaction K B dev c t (Some l) irq =
            Some ((case e of LWIS_IO_ENTRY_OTHER tag \<Rightarrow> 0 | _ \<Rightarrow> err),
                  Some (l @ [\<lparr>pe_event_id = emit_error_event_id (info t), pe_payload = rs,
                              pe_size = sizeof_response_header K + results_size_bytes (resp t)\<rparr>]),
                  c')
          \<and> error_code rs = err
          \<and> completion_index rs = int (length pre) - 1
          \<and> world c' = w2
          \<and> length (io_mem c' (io_entries (info t))) = length (pre @ e # post)
          \<and> drop (Suc (length pre)) (io_mem c' (io_entries (info t))) = post))
   \<and> (entries_succeed B dev irq (io_mem c (io_entries (info t))) 0 (world c) = Some (bias', w')
        \<longrightarrow>
      (\<exists>rs c'. process_transaction K B dev c t (Some l) irq =
            Some (0,
                  Some (l @ [\<lparr>pe_event_id =
                                (if error_code (resp t) \<noteq> 0 then emit_error_event_id (info t)
                                 else emit_success_event_id (info t)),
                              pe_payload = rs,
                              pe_size = sizeof_response_header K + results_size_bytes (resp t)\<rparr>]),
                  c')
          \<and> error_code rs = error_code (resp t)
          \<and> completion_index rs = int (length (io_mem c (io_entries (info t)))) - 1
          \<and> world c' = w'))
   \<and> (case lwis_transaction_submit_locked sim_defs sim_env sim_dev rt_client rt_transaction of
        (ret, t, c) \<Rightarrow>
          ret = 0 \<and> transaction_process_queue c = [t]
          \<and> map_option emitted (transaction_work_func sim_defs sim_env sim_dev c) =
              Some [\<lparr>pe_event_id = 100,
                     pe_payload =
                       \<lparr>resp_id = 0, error_code = 0, num_entries = 1,
                        results_size_bytes = 28, completion_index = 1,
                        results = [\<lparr>res_bid = 0, res_offset = 0x10, num_value_bytes = 4,
                                    res_values = [5, 0, 0, 0]\<rparr>],
                        alloc_size = 60\<rparr>,
                     pe_size = 60\<rparr>])
   \<and> (case process_transaction sim_defs sim_env sim_dev badw_client rt_transaction (Some [])
              False of
        None \<Rightarrow> False
      | Some (ret, pe, c') \<Rightarrow>
          ret = - EINVAL
          \<and> map_option (map (\<lambda>e. (pe_event_id e, error_code (pe_payload e),
                                     completion_index (pe_payload e)))) pe
              = Some [(101, - EINVAL, 1)]
          \<and> regs (world c') (0, 0x110) = 5 \<and> regs (world c') (0, 0x130) = 0)"
proof (intro conjI impI)
  assume a: "io_mem c (io_entries (info t)) = pre @ e # post
      \<and> entries_succeed B dev irq pre 0 (world c) = Some (bias, w1)
      \<and> entry_returns B dev irq (lwis_entry_bias e bias) w1 = Some (err, w2)
      \<and> err \<noteq> 0"
  then have mem: "io_mem c (io_entries (info t)) = pre @ e # post"
    and pre: "entries_succeed B dev irq pre 0 (world c) = Some (bias, w1)"
    and fail: "entry_returns B dev irq (lwis_entry_bias e bias) w1 = Some (err, w2)"
    and nz: "err \<noteq> 0" by blast+
  let ?rs0 = "(resp t)\<lparr>completion_index := - 1\<rparr>"
  let ?ret = "case e of LWIS_IO_ENTRY_OTHER tag \<Rightarrow> 0 | _ \<Rightarrow> err"
  from entries_succeed_prefix [OF pre, of ?rs0 0] obtain pre' rs1 where
    len: "length pre' = length pre"
    and ci0: "completion_index rs1 =
                (if pre = [] then completion_index ?rs0 else 0 + int (length pre) - 1)"
    and app0: "\<forall>ys. process_io_entries B dev irq (pre @ ys) 0 0 ?rs0 (world c) =
           (case process_io_entries B dev irq ys (0 + int (length pre)) bias rs1 w1 of
              None \<Rightarrow> None
            | Some (r2, ys', rs2, w2) \<Rightarrow> Some (r2, pre' @ ys', rs2, w2))"
    by blast
  have ci1: "completion_index rs1 = int (length pre) - 1" using ci0 by simp
  have ret_eq: "(case lwis_entry_bias e bias of LWIS_IO_ENTRY_OTHER tag \<Rightarrow> 0 | _ \<Rightarrow> err) = ?ret"
    by (cases e) (simp_all add: lwis_entry_bias_def)
  from entry_returns_fail [OF fail nz, of bias rs1] obtain e' rs2 where
    pe: "process_entry B dev irq (lwis_entry_bias e bias) bias rs1 w1 =
           Some (Entry_Fail ?ret e' rs2 w2)"
    and err2: "error_code rs2 = err" and ci2: "completion_index rs2 = completion_index rs1"
    unfolding ret_eq by blast
  have run: "process_io_entries B dev irq (pre @ e # post) 0 0 ?rs0 (world c) =
               Some (?ret, pre' @ e' # post, rs2, w2)"
    using app0 [rule_format, of "e # post"] pe by simp
  have "process_transaction K B dev c t (Some l) irq =
            Some (?ret,
                  Some (l @ [\<lparr>pe_event_id = emit_error_event_id (info t), pe_payload = rs2,
                              pe_size = sizeof_response_header K + results_size_bytes (resp t)\<rparr>]),
                  save_transaction_to_history K
                     (c\<lparr>io_mem := (io_mem c)(io_entries (info t) := pre' @ e' # post),
                        world := w2\<rparr>) (info t))"
    using run mem nz err2
    by (simp add: process_transaction_def Let_def lwis_pending_event_push_def)
  moreover have "world (save_transaction_to_history K
                     (c\<lparr>io_mem := (io_mem c)(io_entries (info t) := pre' @ e' # post),
                        world := w2\<rparr>) (info t)) = w2"
    by (simp add: save_transaction_to_history_def)
  moreover have "io_mem (save_transaction_to_history K
                     (c\<lparr>io_mem := (io_mem c)(io_entries (info t) := pre' @ e' # post),
                        world := w2\<rparr>) (info t)) (io_entries (info t)) = pre' @ e' # post"
    by (simp add: save_transaction_to_history_def)
  ultimately show "\<exists>rs c'. process_transaction K B dev c t (Some l) irq =
            Some (?ret,
                  Some (l @ [\<lparr>pe_event_id = emit_error_event_id (info t), pe_payload = rs,
                              pe_size = sizeof_response_header K + results_size_bytes (resp t)\<rparr>]),
                  c')
          \<and> error_code rs = err
          \<and> completion_index rs = int (length pre) - 1
          \<and> world c' = w2
          \<and> length (io_mem c' (io_entries (info t))) = length (pre @ e # post)
          \<and> drop (Suc (length pre)) (io_mem c' (io_entries (info t))) = post"
    using err2 ci2 ci1 len by simp
next
  assume ok: "entries_succeed B dev irq (io_mem c (io_entries (info t))) 0 (world c)
                = Some (bias', w')"
  let ?es = "io_mem c (io_entries (info t))"
  let ?rs0 = "(resp t)\<lparr>completion_index := - 1\<rparr>"
  from entries_succeed_prefix [OF ok, of ?rs0 0] obtain es' rs1 where
    len: "length es' = length ?es"
    and e1: "error_code rs1 = error_code ?rs0"
    and ci0: "completion_index rs1 =
                (if ?es = [] then completion_index ?rs0 else 0 + int (length ?es) - 1)"
    and app0: "\<forall>ys. process_io_entries B dev irq (?es @ ys) 0 0 ?rs0 (world c) =
           (case process_io_entries B dev irq ys (0 + int (length ?es)) bias' rs1 w' of
              None \<Rightarrow> None
            | Some (r2, ys', rs2, w2) \<Rightarrow> Some (r2, es' @ ys', rs2, w2))"
    by blast
  have ci1: "completion_index rs1 = int (length ?es) - 1" using ci0 by simp
  have run: "process_io_entries B dev irq ?es 0 0 ?rs0 (world c) = Some (0, es', rs1, w')"
    using app0 [rule_format, of "[]"] by simp
  have "process_transaction K B dev c t (Some l) irq =
            Some (0,
                  Some (l @ [\<lparr>pe_event_id =
                                (if error_code (resp t) \<noteq> 0 then emit_error_event_id (info t)
                                 else emit_success_event_id (info t)),
                              pe_payload = rs1,
                              pe_size = sizeof_response_header K + results_size_bytes (resp t)\<rparr>]),
                  save_transaction_to_history K
                     (c\<lparr>io_mem := (io_mem c)(io_entries (info t) := es'), world := w'\<rparr>)
                     (info t))"
    using run e1
    by (simp add: process_transaction_def Let_def lwis_pending_event_push_def)
  moreover have "world (save_transaction_to_history K
                     (c\<lparr>io_mem := (io_mem c)(io_entries (info t) := es'), world := w'\<rparr>)
                     (info t)) = w'"
    by (simp add: save_transaction_to_history_def)
  ultimately show "\<exists>rs c'. process_transaction K B dev c t (Some l) irq =
            Some (0,
                  Some (l @ [\<lparr>pe_event_id =
                                (if error_code (resp t) \<noteq> 0 then emit_error_event_id (info t)
                                 else emit_success_event_id (info t)),
                              pe_payload = rs,
                              pe_size = sizeof_response_header K + results_size_bytes (resp t)\<rparr>]),
                  c')
          \<and> error_code rs = error_code (resp t)
          \<and> completion_index rs = int (length (io_mem c (io_entries (info t)))) - 1
          \<and> world c' = w'"
    using e1 ci1 by simp
next
  show "case lwis_transaction_submit_locked sim_defs sim_env sim_dev rt_client rt_transaction of
        (ret, t, c) \<Rightarrow>
          ret = 0 \<and> transaction_process_queue c = [t]
          \<and> map_option emitted (transaction_work_func sim_defs sim_env sim_dev c) =
              Some [\<lparr>pe_event_id = 100,
                     pe_payload =
                       \<lparr>resp_id = 0, error_code = 0, num_entries = 1,
                        results_size_bytes = 28, completion_index = 1,
                        results = [\<lparr>res_bid = 0, res_offset = 0x10, num_value_bytes = 4,
                                    res_values = [5, 0, 0, 0]\<rparr>],
                        alloc_size = 60\<rparr>,
                     pe_size = 60\<rparr>]"
    by (simp add: rt_client_def rt_transaction_def rt_entries_def sim_simps interp_simps
          manager_simps upt_rec)
next
  show "case process_transaction sim_defs sim_env sim_dev badw_client rt_transaction (Some [])
              False of
        None \<Rightarrow> False
      | Some (ret, pe, c') \<Rightarrow>
          ret = - EINVAL
          \<and> map_option (map (\<lambda>e. (pe_event_id e, error_code (pe_payload e),
                                     completion_index (pe_payload e)))) pe
              = Some [(101, - EINVAL, 1)]
          \<and> regs (world c') (0, 0x110) = 5 \<and> regs (world c') (0, 0x130) = 0"
    by (simp add: badw_client_def badw_entries_def rt_transaction_def sim_simps interp_simps
          errno_simps)
qed

theorem process_transaction_first_error_witness:
  "(\<exists>rs c'. process_transaction sim_defs sim_env sim_dev badw_client rt_transaction (Some []) False =
          Some (- EINVAL, Some [\<lparr>pe_event_id = 101, pe_payload = rs, pe_size = 32\<rparr>], c')
        \<and> error_code rs = - EINVAL \<and> completion_index rs = 1
        \<and> regs (world c') (0, 0x110) = 5 \<and> regs (world c') (0, 0x30) = 0
        \<and> regs (world c') (0, 0x130) = 0
        \<and> drop 3 (io_mem c' 1) = [LWIS_IO_ENTRY_WRITE \<lparr>rw_bid = 0, rw_offset = 0x30, rw_val = 7\<rparr>])
   \<and> (\<exists>rs c'. process_transaction sim_defs sim_env sim_dev fail_client rt_transaction (Some []) False =
          Some (- EINVAL, Some [\<lparr>pe_event_id = 101, pe_payload = rs, pe_size = 32\<rparr>], c')
        \<and> error_code rs = - EINVAL \<and> completion_index rs = 0
        \<and> regs (world c') (0, 0x10) = 5 \<and> regs (world c') (0, 0x30) = 0)
   \<and> (\<exists>rs c'. process_transaction sim_defs sim_env sim_dev other_client rt_transaction (Some []) False =
          Some (0, Some [\<lparr>pe_event_id = 101, pe_payload = rs, pe_size = 32\<rparr>], c')
        \<and> error_code rs = - EINVAL \<and> completion_index rs = - 1
        \<and> regs (world c') (0, 0x10) = 0)
   \<and> (\<exists>rs c'. process_transaction sim_defs sim_env sim_dev rt_client rt_transaction (Some []) False =
          Some (0, Some [\<lparr>pe_event_id = 100, pe_payload = rs, pe_size = 32\<rparr>], c')
        \<and> error_code rs = 0 \<and> completion_index rs = 1
        \<and> regs (world c') (0, 0x10) = 5)
   \<and> (\<exists>rs c'. process_transaction sim_defs sim_env sim_dev pollf_client rt_transaction (Some []) False =
          Some (- ETIMEDOUT, Some [\<lparr>pe_event_id = 101, pe_payload = rs, pe_size = 32\<rparr>], c')
        \<and> error_code rs = - ETIMEDOUT \<and> completion_index rs = 0
        \<and> regs (world c') (0, 0x10) = 0x0F \<and> regs (world c') (0, 0x30) = 0)"
proof -
  let ?w1 = "sim_world0\<lparr>regs := (regs sim_world0)((0, 0x110) := 5)\<rparr>"
  let ?w2 = "sim_world0\<lparr>regs := (regs sim_world0)((0, 0x10) := 5)\<rparr>"
  have a1: "io_mem badw_client (io_entries (info rt_transaction)) =
      [LWIS_IO_ENTRY_BIAS 0x100, LWIS_IO_ENTRY_WRITE \<lparr>rw_bid = 0, rw_offset = 0x10, rw_val = 5\<rparr>]
      @ LWIS_IO_ENTRY_WRITE \<lparr>rw_bid = - 1, rw_offset = 0x20, rw_val = 6\<rparr>
      # [LWIS_IO_ENTRY_WRITE \<lparr>rw_bid = 0, rw_offset = 0x30, rw_val = 7\<rparr>]
    \<and> entries_succeed sim_env sim_dev False
      [LWIS_IO_ENTRY_BIAS 0x100, LWIS_IO_ENTRY_WRITE \<lparr>rw_bid = 0, rw_offset = 0x10, rw_val = 5\<rparr>]
      0 (world badw_client) = Some (0x100, ?w1)
    \<and> entry_returns sim_env sim_dev False
      (lwis_entry_bias (LWIS_IO_ENTRY_WRITE \<lparr>rw_bid = - 1, rw_offset = 0x20, rw_val = 6\<rparr>) 0x100)
      ?w1 = Some (- EINVAL, ?w1)
    \<and> - EINVAL \<noteq> (0 :: int)"
    by (simp add: rt_transaction_def badw_client_def badw_entries_def sim_simps entry_simps
          errno_simps)
  have a2: "io_mem fail_client (io_entries (info rt_transaction)) =
      [LWIS_IO_ENTRY_WRITE \<lparr>rw_bid = 0, rw_offset = 0x10, rw_val = 5\<rparr>]
      @ LWIS_IO_ENTRY_READ \<lparr>rw_bid = - 1, rw_offset = 0x10, rw_val = 0\<rparr>
      # [LWIS_IO_ENTRY_WRITE \<lparr>rw_bid = 0, rw_offset = 0x30, rw_val = 7\<rparr>]
    \<and> entries_succeed sim_env sim_dev False
      [LWIS_IO_ENTRY_WRITE \<lparr>rw_bid = 0, rw_offset = 0x10, rw_val = 5\<rparr>]
      0 (world fail_client) = Some (0, ?w2)
    \<and> entry_returns sim_env sim_dev False
      (lwis_entry_bias (LWIS_IO_ENTRY_READ \<lparr>rw_bid = - 1, rw_offset = 0x10, rw_val = 0\<rparr>) 0)
      ?w2 = Some (- EINVAL, ?w2)
    \<and> - EINVAL \<noteq> (0 :: int)"
    by (simp add: rt_transaction_def fail_client_def fail_entries_def sim_simps entry_simps
          errno_simps)
  have a3: "io_mem other_client (io_entries (info rt_transaction)) =
      [] @ LWIS_IO_ENTRY_OTHER 99
      # [LWIS_IO_ENTRY_WRITE \<lparr>rw_bid = 0, rw_offset = 0x10, rw_val = 5\<rparr>]
    \<and> entries_succeed sim_env sim_dev False [] 0 (world other_client) = Some (0, sim_world0)
    \<and> entry_returns sim_env sim_dev False (lwis_entry_bias (LWIS_IO_ENTRY_OTHER 99) 0)
      sim_world0 = Some (- EINVAL, sim_world0)
    \<and> - EINVAL \<noteq> (0 :: int)"
    by (simp add: rt_transaction_def other_client_def other_entries_def sim_simps entry_simps
          errno_simps)
  have a4: "entries_succeed sim_env sim_dev False (io_mem rt_client (io_entries (info rt_transaction)))
              0 (world rt_client) = Some (0, ?w2)"
    by (simp add: rt_transaction_def rt_client_def rt_entries_def sim_simps entry_simps
          errno_simps)
  note th = process_transaction_stops_at_first_error
  from th [where K = sim_defs and l = "[]" and t = rt_transaction, THEN conjunct1, rule_format, OF a1]
  have c1: "\<exists>rs c'. process_transaction sim_defs sim_env sim_dev badw_client rt_transaction (Some []) False =
          Some (- EINVAL, Some [\<lparr>pe_event_id = 101, pe_payload = rs, pe_size = 32\<rparr>], c')
        \<and> error_code rs = - EINVAL \<and> completion_index rs = 1
        \<and> regs (world c') (0, 0x110) = 5 \<and> regs (world c') (0, 0x30) = 0
        \<and> regs (world c') (0, 0x130) = 0
        \<and> drop 3 (io_mem c' 1) = [LWIS_IO_ENTRY_WRITE \<lparr>rw_bid = 0, rw_offset = 0x30, rw_val = 7\<rparr>]"
    by (auto simp: rt_transaction_def sim_simps numeral_3_eq_3)
  from th [where K = sim_defs and l = "[]" and t = rt_transaction, THEN conjunct1, rule_format, OF a2]
  have c2: "\<exists>rs c'. process_transaction sim_defs sim_env sim_dev fail_client rt_transaction (Some []) False =
          Some (- EINVAL, Some [\<lparr>pe_event_id = 101, pe_payload = rs, pe_size = 32\<rparr>], c')
        \<and> error_code rs = - EINVAL \<and> completion_index rs = 0
        \<and> regs (world c') (0, 0x10) = 5 \<and> regs (world c') (0, 0x30) = 0"
    by (auto simp: rt_transaction_def sim_simps)
  from th [where K = sim_defs and l = "[]" and t = rt_transaction, THEN conjunct1, rule_format, OF a3]
  have c3: "\<exists>rs c'. process_transaction sim_defs sim_env sim_dev other_client rt_transaction (Some []) False =
          Some (0, Some [\<lparr>pe_event_id = 101, pe_payload = rs, pe_size = 32\<rparr>], c')
        \<and> error_code rs = - EINVAL \<and> completion_index rs = - 1
        \<and> regs (world c') (0, 0x10) = 0"
    by (auto simp: rt_transaction_def sim_simps)
  from th [where K = sim_defs and l = "[]" and t = rt_transaction,
           THEN conjunct2, THEN conjunct1, rule_format, OF a4]
  have c4: "\<exists>rs c'. process_transaction sim_defs sim_env sim_dev rt_client rt_transaction (Some []) False =
          Some (0, Some [\<lparr>pe_event_id = 100, pe_payload = rs, pe_size = 32\<rparr>], c')
        \<and> error_code rs = 0 \<and> completion_index rs = 1
        \<and> regs (world c') (0, 0x10) = 5"
    by (auto simp: rt_transaction_def rt_client_def rt_entries_def sim_simps)
  let ?w5 = "sim_world0\<lparr>regs := (regs sim_world0)((0, 0x10) := 0x0F)\<rparr>"
  have a5: "io_mem pollf_client (io_entries (info rt_transaction)) =
      [LWIS_IO_ENTRY_MODIFY \<lparr>mod_bid = 0, mod_offset = 0x10, mod_val = 0xFF, mod_val_mask = 0x0F\<rparr>]
      @ LWIS_IO_ENTRY_POLL \<lparr>poll_bid = 0, poll_offset = 0x20, poll_val = 0x3,
                            poll_mask = 0xFF, poll_timeout_ms = 1\<rparr>
      # [LWIS_IO_ENTRY_WRITE \<lparr>rw_bid = 0, rw_offset = 0x30, rw_val = 7\<rparr>]
    \<and> entries_succeed sim_env sim_dev False
      [LWIS_IO_ENTRY_MODIFY \<lparr>mod_bid = 0, mod_offset = 0x10, mod_val = 0xFF, mod_val_mask = 0x0F\<rparr>]
      0 (world pollf_client) = Some (0, ?w5)
    \<and> entry_returns sim_env sim_dev False
      (lwis_entry_bias (LWIS_IO_ENTRY_POLL \<lparr>poll_bid = 0, poll_offset = 0x20, poll_val = 0x3,
                            poll_mask = 0xFF, poll_timeout_ms = 1\<rparr>) 0)
      ?w5 = Some (- ETIMEDOUT, ?w5\<lparr>clock_ms := 2\<rparr>)
    \<and> - ETIMEDOUT \<noteq> (0 :: int)"
    by (simp add: rt_transaction_def pollf_client_def pollf_entries_def sim_simps entry_simps
          errno_simps lwis_entry_poll_def poll_loop.simps poll_body_def)
  from th [where K = sim_defs and l = "[]" and t = rt_transaction, THEN conjunct1, rule_format, OF a5]
  have c5: "\<exists>rs c'. process_transaction sim_defs sim_env sim_dev pollf_client rt_transaction (Some []) False =
          Some (- ETIMEDOUT, Some [\<lparr>pe_event_id = 101, pe_payload = rs, pe_size = 32\<rparr>], c')
        \<and> error_code rs = - ETIMEDOUT \<and> completion_index rs = 0
        \<and> regs (world c') (0, 0x10) = 0x0F \<and> regs (world c') (0, 0x30) = 0"
    by (auto simp: rt_transaction_def sim_simps)
  from c1 c2 c3 c4 c5 show ?thesis by blast
qed

section \<open>Bias across firings\<close>

text \<open>
  Claim C7.  The entry array of a repeating transaction is shared by all its iterations and
  \<^verbatim>\<open>lwis_entry_bias\<close> adds the bias to the offsets in that array.  On the simulated
  device, the first firing of event 7 writes at \<open>0x10 + 0x100\<close> and leaves the offset
  \<open>0x110\<close> in the array; the second firing writes at \<open>0x110 + 0x100 = 0x210\<close>.
\<close>

theorem bias_persists_across_firings:
  "(case lwis_transaction_event_trigger sim_defs sim_env sim_dev bias_client 7 1 (Some []) False of
      None \<Rightarrow> False
    | Some (r1, pe1, c1) \<Rightarrow>
        io_mem c1 1 = [LWIS_IO_ENTRY_BIAS 0x100,
                       LWIS_IO_ENTRY_WRITE \<lparr>rw_bid = 0, rw_offset = 0x110, rw_val = 5\<rparr>]
        \<and> regs (world c1) (0, 0x110) = 5 \<and> regs (world c1) (0, 0x210) = 0
        \<and> transaction_list c1 = [(7, [bias_transaction])]
        \<and> (case lwis_transaction_event_trigger sim_defs sim_env sim_dev c1 7 2 pe1 False of
              None \<Rightarrow> False
            | Some (r2, pe2, c2) \<Rightarrow>
                io_mem c2 1 = [LWIS_IO_ENTRY_BIAS 0x100,
                               LWIS_IO_ENTRY_WRITE \<lparr>rw_bid = 0, rw_offset = 0x210, rw_val = 5\<rparr>]
                \<and> regs (world c2) (0, 0x210) = 5))"
  by (simp add: bias_client_def bias_transaction_def bias_entries_def sim_simps interp_simps
        trigger_simps)

section \<open>Submission\<close>

text \<open>
  The sizes that \<^verbatim>\<open>prepare_response_locked\<close> computes are \<^verbatim>\<open>size_t\<close> sums: for a single
  batch read of \<open>2 ^ 64 - 1\<close> bytes, \<open>results_size_bytes\<close> wraps to 23 and the allocation
  is 55 bytes.
\<close>

lemma prepare_response_size_wraps:
  "(case prepare_response_locked sim_defs sim_env sim_dev
           (sim_client\<lparr>io_mem := (\<lambda>a. [])(1 :=
              [LWIS_IO_ENTRY_READ_BATCH \<lparr>rwb_bid = 0, rwb_offset = 0, size_in_bytes = - 1,
                                         buf = []\<rparr>])\<rparr>)
           rt_transaction of
      (ret, t, c) \<Rightarrow>
        ret = 0 \<and> num_entries (resp t) = 1 \<and> results_size_bytes (resp t) = 23
        \<and> alloc_size (resp t) = 55)"
  by (simp add: prepare_response_locked_def rt_transaction_def sim_simps Let_def)




lemma check_frame:
  "check_transaction_param_locked K B c t a = (ret, t', c') \<Longrightarrow> c' = c\<lparr>world := world c'\<rparr>"
  by (auto simp: check_transaction_param_locked_def check_sw_events_def Let_def
           split: prod.splits if_splits option.splits)

lemma prepare_response_frame:
  "prepare_response_locked K B dev c t = (ret, t', c') \<Longrightarrow>
   info t' = (info t)\<lparr>id' := transaction_counter c\<rparr> \<and> c' = c\<lparr>world := world c'\<rparr>
   \<and> (ret = 0 \<longrightarrow> resp_id (resp t') = transaction_counter c \<and> error_code (resp t') = 0)"
  by (auto simp: prepare_response_locked_def Let_def ENOMEM_def split: prod.splits if_splits)

lemma event_list_find_or_create_counter:
  "event_list_find_or_create K B c e = (l, c') \<Longrightarrow>
   transaction_counter c' = transaction_counter c
   \<and> transaction_process_queue c' = transaction_process_queue c"
  by (auto simp: event_list_find_or_create_def event_list_create_def
           split: option.splits prod.splits if_splits)

lemma queue_counter:
  "queue_transaction_locked K B c t = (ret, t', c') \<Longrightarrow>
   id' (info t') = id' (info t) \<and> resp t' = resp t
   \<and> transaction_counter c' = (if ret = 0 then transaction_counter c + 1 else transaction_counter c)"
  by (auto simp: queue_transaction_locked_def queue_work_def Let_def EINVAL_def
           dest: event_list_find_or_create_counter
           split: prod.splits if_splits option.splits)

lemma submit_counter:
  assumes "lwis_transaction_submit_locked K B dev c t = (ret, t', c')"
  shows "if ret = 0 then id' (info t') = transaction_counter c
                       \<and> resp_id (resp t') = transaction_counter c
                       \<and> transaction_counter c' = transaction_counter c + 1
         else transaction_counter c' = transaction_counter c"
proof -
  obtain r1 t1 c1 where chk: "check_transaction_param_locked K B c t (allow_counter_eq (info t)) = (r1, t1, c1)"
    by (cases "check_transaction_param_locked K B c t (allow_counter_eq (info t))") auto
  from check_frame [OF chk] have c1: "transaction_counter c1 = transaction_counter c"
    by (cases c) (cases c1, simp)
  show ?thesis
  proof (cases "r1 = 0")
    case False
    with chk assms c1 show ?thesis by (simp add: lwis_transaction_submit_locked_def)
  next
    case True
    obtain r2 t2 c2 where prep: "prepare_response_locked K B dev c1 t1 = (r2, t2, c2)"
      by (cases "prepare_response_locked K B dev c1 t1") auto
    from prepare_response_frame [OF prep]
    have t2: "id' (info t2) = transaction_counter c1"
      and c2': "c2 = c1\<lparr>world := world c2\<rparr>"
      and t2r: "r2 = 0 \<longrightarrow> resp_id (resp t2) = transaction_counter c1" by simp_all
    have c2: "transaction_counter c2 = transaction_counter c1"
      by (subst c2') simp
    show ?thesis
    proof (cases "r2 = 0")
      case False
      with True chk prep assms c1 c2 show ?thesis by (simp add: lwis_transaction_submit_locked_def)
    next
      case r2: True
      from True r2 chk prep assms have q: "queue_transaction_locked K B c2 t2 = (ret, t', c')"
        by (simp add: lwis_transaction_submit_locked_def)
      from queue_counter [OF q] t2 t2r r2 c1 c2 show ?thesis by simp
    qed
  qed
qed

lemma sint_succ: "sint (x :: 64 word) < 2 ^ 63 - 1 \<Longrightarrow> sint (x + 1) = sint x + 1"
proof -
  assume a: "sint x < 2 ^ 63 - 1"
  have lo: "- (2 ^ 63) \<le> sint x" using sint_ge [of x] by simp
  have "sint (x + 1) = signed_take_bit 63 (sint x + sint (1 :: 64 word))"
    by (simp add: sint_word_ariths)
  also have "\<dots> = signed_take_bit 63 (sint x + 1)" by simp
  also have "\<dots> = sint x + 1"
    by (rule signed_take_bit_int_eq_self) (use a lo in simp_all)
  finally show ?thesis .
qed

lemma submit_all_ids:
  "submit_all K B dev c ts = (rs, c') \<Longrightarrow>
   assigned_ids rs = map (\<lambda>k. transaction_counter c + of_nat k) [0..<length (assigned_ids rs)]
   \<and> transaction_counter c' = transaction_counter c + of_nat (length (assigned_ids rs))
   \<and> length (assigned_ids rs) \<le> length ts"
proof (induction ts arbitrary: c rs c')
  case Nil
  then show ?case by (simp add: assigned_ids_def)
next
  case (Cons t ts)
  obtain ret t1 c1 where s: "lwis_transaction_submit_locked K B dev c t = (ret, t1, c1)"
    by (cases "lwis_transaction_submit_locked K B dev c t") auto
  obtain rs1 where r: "submit_all K B dev c1 ts = (rs1, c')" and rs: "rs = (ret, t1) # rs1"
    using Cons.prems s by (auto split: prod.splits)
  note IH = Cons.IH [OF r]
  note sc = submit_counter [OF s]
  show ?case
  proof (cases "ret = 0")
    case False
    then have "assigned_ids rs = assigned_ids rs1" using rs by (simp add: assigned_ids_def)
    moreover from False sc have "transaction_counter c1 = transaction_counter c" by simp
    ultimately show ?thesis using IH by simp
  next
    case True
    let ?n = "length (assigned_ids rs1)"
    from True sc have id: "id' (info t1) = transaction_counter c"
      and c1: "transaction_counter c1 = transaction_counter c + 1" by simp_all
    have a: "assigned_ids rs = transaction_counter c # assigned_ids rs1"
      using rs True id by (simp add: assigned_ids_def)
    have "map (\<lambda>k. transaction_counter c + of_nat k) [0..<Suc ?n]
          = transaction_counter c # map (\<lambda>k. transaction_counter c + 1 + of_nat k) [0..<?n]"
      by (simp add: upt_conv_Cons map_Suc_upt [symmetric] add.assoc add.commute del: upt_Suc)
    also have "\<dots> = transaction_counter c # assigned_ids rs1" using IH c1 by simp
    finally have "assigned_ids rs = map (\<lambda>k. transaction_counter c + of_nat k) [0..<length (assigned_ids rs)]"
      using a by simp
    moreover have "transaction_counter c' = transaction_counter c + of_nat (length (assigned_ids rs))"
      using IH c1 a by (simp add: add.assoc add.commute)
    moreover have "length (assigned_ids rs) \<le> length (t # ts)" using IH a by simp
    ultimately show ?thesis by blast
  qed
qed

lemma sint_add_nat:
  "sint (x :: 64 word) + int k < 2 ^ 63 \<Longrightarrow> sint (x + of_nat k) = sint x + int k"
proof (induction k)
  case 0
  then show ?case by simp
next
  case (Suc k)
  then have "sint (x + of_nat k) = sint x + int k" by simp
  moreover from this Suc.prems have "sint (x + of_nat k) < 2 ^ 63 - 1" by simp
  ultimately have step: "sint (x + of_nat k + 1) = sint x + int k + 1" using sint_succ by simp
  have "sint (x + of_nat (Suc k)) = sint (x + of_nat k + 1)" by (simp add: ac_simps)
  also note step
  finally show ?case by simp
qed

lemma consecutive_sorted:
  "sint (x :: 64 word) + int n < 2 ^ 63 \<Longrightarrow>
   sorted_wrt (<s) (map (\<lambda>k. x + of_nat k) [0..<n])"
proof -
  assume a: "sint x + int n < 2 ^ 63"
  have "\<And>i j. i < j \<Longrightarrow> j < n \<Longrightarrow> x + of_nat i <s x + of_nat j"
  proof -
    fix i j :: nat
    assume ij: "i < j" "j < n"
    then have "sint (x + of_nat i) = sint x + int i" "sint (x + of_nat j) = sint x + int j"
      using a by (simp_all add: sint_add_nat)
    then show "x + of_nat i <s x + of_nat j" using ij by (simp add: word_sless_alt)
  qed
  then show ?thesis by (simp add: sorted_wrt_iff_nth_less)
qed




text \<open>
  Claim C9.  A submission that returns 0 has given the transaction the client's transaction
  counter as its id (in the info and in the response header) and has incremented the counter
  by one; a submission that fails leaves the counter as it was.  So the ids assigned by the
  successful submissions of a sequence are the consecutive values \<open>counter\<close>,
  \<open>counter + 1\<close>, ...; they are strictly increasing in the signed 64-bit order as long as
  the counter stays within the range of \<^verbatim>\<open>int64_t\<close>.
\<close>

theorem transaction_ids_strictly_increasing:
  "(case lwis_transaction_submit_locked K B dev c t of
      (ret, t', c') \<Rightarrow>
        if ret = 0 then id' (info t') = transaction_counter c
                      \<and> resp_id (resp t') = transaction_counter c
                      \<and> transaction_counter c' = transaction_counter c + 1
        else transaction_counter c' = transaction_counter c)
   \<and> (case submit_all K B dev c ts of
        (rs, c') \<Rightarrow>
          assigned_ids rs
            = map (\<lambda>k. transaction_counter c + of_nat k) [0..<length (assigned_ids rs)]
          \<and> transaction_counter c' = transaction_counter c + of_nat (length (assigned_ids rs))
          \<and> (sint (transaction_counter c) + int (length ts) < 2 ^ 63 \<longrightarrow>
               sorted_wrt (<s) (assigned_ids rs)))"
proof (rule conjI)
  obtain ret t' c' where s: "lwis_transaction_submit_locked K B dev c t = (ret, t', c')"
    by (cases "lwis_transaction_submit_locked K B dev c t") auto
  from submit_counter [OF s] s
  show "case lwis_transaction_submit_locked K B dev c t of
      (ret, t', c') \<Rightarrow>
        if ret = 0 then id' (info t') = transaction_counter c
                      \<and> resp_id (resp t') = transaction_counter c
                      \<and> transaction_counter c' = transaction_counter c + 1
        else transaction_counter c' = transaction_counter c"
    by simp
next
  obtain rs c' where a: "submit_all K B dev c ts = (rs, c')"
    by (cases "submit_all K B dev c ts") auto
  from submit_all_ids [OF a]
  have ids: "assigned_ids rs
            = map (\<lambda>k. transaction_counter c + of_nat k) [0..<length (assigned_ids rs)]"
    and cnt: "transaction_counter c' = transaction_counter c + of_nat (length (assigned_ids rs))"
    and len: "length (assigned_ids rs) \<le> length ts" by simp_all
  have "sorted_wrt (<s) (assigned_ids rs)"
    if "sint (transaction_counter c) + int (length ts) < 2 ^ 63"
  proof -
    from that len have "sint (transaction_counter c) + int (length (assigned_ids rs)) < 2 ^ 63"
      by simp
    from consecutive_sorted [OF this] ids show ?thesis by simp
  qed
  with ids cnt a
  show "case submit_all K B dev c ts of
        (rs, c') \<Rightarrow>
          assigned_ids rs
            = map (\<lambda>k. transaction_counter c + of_nat k) [0..<length (assigned_ids rs)]
          \<and> transaction_counter c' = transaction_counter c + of_nat (length (assigned_ids rs))
          \<and> (sint (transaction_counter c) + int (length ts) < 2 ^ 63 \<longrightarrow>
               sorted_wrt (<s) (assigned_ids rs))"
    by simp
qed

theorem transaction_ids_witness:
  "sint (transaction_counter rt_client) + int (length [rt_transaction, rt_transaction]) < 2 ^ 63
   \<and> sorted_wrt (<s)
        (assigned_ids (fst (submit_all sim_defs sim_env sim_dev rt_client
                              [rt_transaction, rt_transaction])))
   \<and> assigned_ids (fst (submit_all sim_defs sim_env sim_dev rt_client
                            [rt_transaction, rt_transaction])) = [0, 1]"
proof -
  have b: "sint (transaction_counter rt_client) + int (length [rt_transaction, rt_transaction]) < 2 ^ 63"
    by (simp add: rt_client_def sim_simps)
  have e: "assigned_ids (fst (submit_all sim_defs sim_env sim_dev rt_client
                            [rt_transaction, rt_transaction])) = [0, 1]"
    by (simp add: assigned_ids_def rt_client_def rt_transaction_def rt_entries_def sim_simps
          manager_simps Let_def)
  from transaction_ids_strictly_increasing
         [where K = sim_defs and B = sim_env and dev = sim_dev and c = rt_client
            and t = rt_transaction and ts = "[rt_transaction, rt_transaction]"] b
  have "sorted_wrt (<s)
        (assigned_ids (fst (submit_all sim_defs sim_env sim_dev rt_client
                              [rt_transaction, rt_transaction])))"
    by (simp add: case_prod_beta)
  with b e show ?thesis by blast
qed

section \<open>Cancel and replace\<close>

lemma mark_canceled_info [simp]: "info (mark_canceled x t) = info t"
  by (simp add: mark_canceled_def)

lemma mark_canceled_idem [simp]: "mark_canceled x (mark_canceled x t) = mark_canceled x t"
  by (simp add: mark_canceled_def)

lemma map_mark_none:
  "filter (\<lambda>t. id' (info t) = x) ts = [] \<Longrightarrow> map (mark_canceled x) ts = ts"
  by (induction ts) (auto simp: mark_canceled_def split: if_splits)

lemma cancel_in_list_none:
  "cancel_in_list x ts = None \<longleftrightarrow> filter (\<lambda>t. id' (info t) = x) ts = []"
  by (induction ts) auto

lemma cancel_in_list_unique:
  "length (filter (\<lambda>t. id' (info t) = x) ts) = 1 \<Longrightarrow>
   cancel_in_list x ts = Some (map (mark_canceled x) ts)"
proof (induction ts)
  case Nil
  then show ?case by simp
next
  case (Cons t ts)
  show ?case
  proof (cases "id' (info t) = x")
    case True
    with Cons.prems have "filter (\<lambda>t. id' (info t) = x) ts = []" by simp
    then have "map (mark_canceled x) ts = ts" by (rule map_mark_none)
    moreover have "mark_canceled x t = t\<lparr>resp := (resp t)\<lparr>error_code := - ECANCELED\<rparr>\<rparr>"
      using True by (simp add: mark_canceled_def)
    ultimately show ?thesis using True by simp
  next
    case False
    with Cons show ?thesis by (simp add: mark_canceled_def)
  qed
qed

lemma cancel_in_lists_none:
  "cancel_in_lists x ls = None \<longleftrightarrow> filter (\<lambda>t. id' (info t) = x) (concat (map snd ls)) = []"
proof (induction ls)
  case Nil
  then show ?case by simp
next
  case (Cons l ls)
  show ?case
  proof (cases "cancel_in_list x (snd l)")
    case None
    then have "filter (\<lambda>t. id' (info t) = x) (snd l) = []" by (simp add: cancel_in_list_none)
    with None Cons show ?thesis by simp
  next
    case (Some ts)
    then have "filter (\<lambda>t. id' (info t) = x) (snd l) \<noteq> []"
      using cancel_in_list_none [of x "snd l"] by simp
    with Some show ?thesis by simp
  qed
qed

lemma cancel_in_lists_unique:
  "length (filter (\<lambda>t. id' (info t) = x) (concat (map snd ls))) = 1 \<Longrightarrow>
   cancel_in_lists x ls = Some (map (\<lambda>l. (fst l, map (mark_canceled x) (snd l))) ls)"
proof (induction ls)
  case Nil
  then show ?case by simp
next
  case (Cons l ls)
  let ?P = "\<lambda>t. id' (info t) = x"
  show ?case
  proof (cases "filter ?P (snd l) = []")
    case True
    then have n: "cancel_in_list x (snd l) = None" by (simp add: cancel_in_list_none)
    from True Cons.prems have "length (filter ?P (concat (map snd ls))) = 1" by simp
    from Cons.IH [OF this] n True show ?thesis by (simp add: map_mark_none)
  next
    case False
    then have "length (filter ?P (snd l)) \<ge> 1" by (cases "filter ?P (snd l)") auto
    moreover have "length (filter ?P (snd l)) + length (filter ?P (concat (map snd ls))) = 1"
      using Cons.prems by simp
    ultimately have one: "length (filter ?P (snd l)) = 1"
      and zero: "length (filter ?P (concat (map snd ls))) = 0" by linarith+
    from zero have rest: "filter ?P (concat (map snd ls)) = []" by simp
    from rest have "\<forall>l' \<in> set ls. filter ?P (snd l') = []"
      by (auto simp: filter_empty_conv)
    then have "map (\<lambda>l. (fst l, map (mark_canceled x) (snd l))) ls = ls"
      by (induction ls) (auto simp: map_mark_none)
    with cancel_in_list_unique [OF one] show ?thesis by simp
  qed
qed

lemma unique_after_mark:
  "filter (\<lambda>t. id' (info t) = x)
     (concat (map snd (map (\<lambda>l. (fst l, map (mark_canceled x) (snd l))) ls)))
   = map (mark_canceled x) (filter (\<lambda>t. id' (info t) = x) (concat (map snd ls)))"
  by (induction ls) (auto simp: filter_map o_def)

lemma cancel_not_found_iff:
  "fst (lwis_transaction_cancel c y) = - ENOENT
   \<longleftrightarrow> filter (\<lambda>t. id' (info t) = y) (waiting c) = []"
proof (cases "cancel_in_lists y (transaction_list c)")
  case None
  then show ?thesis
    using cancel_in_lists_none [of y "transaction_list c"]
    by (simp add: lwis_transaction_cancel_def cancel_waiting_transaction_locked_def waiting_def
          spin_lock_irqsave_def)
next
  case (Some ls)
  then show ?thesis
    using cancel_in_lists_none [of y "transaction_list c"]
    by (simp add: lwis_transaction_cancel_def cancel_waiting_transaction_locked_def waiting_def
          spin_lock_irqsave_def ENOENT_def)
qed

lemma cancel_unique:
  assumes "length (filter (\<lambda>t. id' (info t) = x) (waiting c)) = 1"
  shows "lwis_transaction_cancel c x =
         (0, c\<lparr>transaction_list :=
                  map (\<lambda>l. (fst l, map (mark_canceled x) (snd l))) (transaction_list c),
                transaction_lock := False\<rparr>)"
  using cancel_in_lists_unique [of x "transaction_list c"] assms
  by (simp add: lwis_transaction_cancel_def cancel_waiting_transaction_locked_def waiting_def
        spin_lock_irqsave_def spin_unlock_irqrestore_def)

text \<open>
  Claim C6, as amended.  When exactly one waiting transaction has id \<open>x\<close>, cancel returns 0
  and sets that transaction's response error code to \<open>-ECANCELED\<close> in place: the event
  lists keep their ids, their order and their transactions.  A second cancel of \<open>x\<close> on the
  state the first one left finds the same transaction again, returns 0 as well and changes
  nothing.  Cancel returns \<open>-ENOENT\<close> exactly when no waiting transaction has the id.
\<close>

theorem cancel_marks_in_place:
  assumes u: "length (filter (\<lambda>t. id' (info t) = x) (waiting c)) = 1"
  shows "lwis_transaction_cancel c x =
           (0, c\<lparr>transaction_list :=
                    map (\<lambda>l. (fst l, map (mark_canceled x) (snd l))) (transaction_list c),
                  transaction_lock := False\<rparr>)
       \<and> lwis_transaction_cancel (snd (lwis_transaction_cancel c x)) x
           = (0, snd (lwis_transaction_cancel c x))
       \<and> (fst (lwis_transaction_cancel c y) = - ENOENT
            \<longleftrightarrow> filter (\<lambda>t. id' (info t) = y) (waiting c) = [])"
proof -
  let ?c1 = "c\<lparr>transaction_list :=
                    map (\<lambda>l. (fst l, map (mark_canceled x) (snd l))) (transaction_list c),
                  transaction_lock := False\<rparr>"
  have first: "lwis_transaction_cancel c x = (0, ?c1)" using u by (rule cancel_unique)
  have "filter (\<lambda>t. id' (info t) = x) (waiting ?c1)
         = map (mark_canceled x) (filter (\<lambda>t. id' (info t) = x) (waiting c))"
    using unique_after_mark [of x "transaction_list c"] by (simp add: waiting_def)
  then have u1: "length (filter (\<lambda>t. id' (info t) = x) (waiting ?c1)) = 1" using u by simp
  have "lwis_transaction_cancel ?c1 x = (0, ?c1)"
    using cancel_unique [OF u1] by (simp add: o_def)
  with first show ?thesis using cancel_not_found_iff [of c y] by simp
qed

theorem cancel_marks_in_place_witness:
  "length (filter (\<lambda>t. id' (info t) = 5) (waiting cancel_client)) = 1
   \<and> fst (lwis_transaction_cancel cancel_client 5) = 0
   \<and> waiting (snd (lwis_transaction_cancel cancel_client 5))
       = [cancel_transaction'\<lparr>resp := sim_resp\<lparr>error_code := - ECANCELED\<rparr>\<rparr>]"
proof -
  have u: "length (filter (\<lambda>t. id' (info t) = 5) (waiting cancel_client)) = 1"
    by (simp add: waiting_def cancel_client_def cancel_transaction'_def sim_simps)
  from cancel_marks_in_place [OF u] u show ?thesis
    by (simp add: waiting_def cancel_client_def cancel_transaction'_def sim_simps mark_canceled_def)
qed

text \<open>
  The claim as stated fails: with one waiting transaction of id 5, the second cancel of 5
  returns 0, not \<open>-ENOENT\<close>.
\<close>

theorem second_cancel_counterexample:
  "length (filter (\<lambda>t. id' (info t) = 5) (waiting cancel_client)) = 1
   \<and> fst (lwis_transaction_cancel cancel_client 5) = 0
   \<and> fst (lwis_transaction_cancel (snd (lwis_transaction_cancel cancel_client 5)) 5) = 0
   \<and> fst (lwis_transaction_cancel (snd (lwis_transaction_cancel cancel_client 5)) 5) \<noteq> - ENOENT"
  by (simp add: waiting_def cancel_client_def cancel_transaction'_def sim_simps errno_simps
        lwis_transaction_cancel_def cancel_waiting_transaction_locked_def
        spin_lock_irqsave_def spin_unlock_irqrestore_def)

lemma check_id:
  "check_transaction_param_locked K B c t a = (ret, t', c') \<Longrightarrow> id' (info t') = id' (info t)"
  by (auto simp: check_transaction_param_locked_def check_sw_events_def Let_def
           split: prod.splits if_splits option.splits)

lemma queue_result:
  assumes "queue_transaction_locked K B c t = (ret, t', c')"
  shows "id' (info t') = id' (info t)
       \<and> trigger_event_id (info t') = trigger_event_id (info t)
       \<and> transaction_lock c' = transaction_lock c
       \<and> (if ret = 0 then
             transaction_counter c' = transaction_counter c + 1
             \<and> (if trigger_event_id (info t) = LWIS_EVENT_ID_NONE K then
                   transaction_process_queue c' = transaction_process_queue c @ [t']
                   \<and> transaction_list c' = transaction_list c
                 else
                   transaction_process_queue c' = transaction_process_queue c
                   \<and> transaction_list c' =
                       event_list_update (trigger_event_id (info t)) (\<lambda>ts. ts @ [t'])
                         (case event_list_find c (trigger_event_id (info t)) of
                            None \<Rightarrow> (trigger_event_id (info t), []) # transaction_list c
                          | Some l \<Rightarrow> transaction_list c))
           else
             transaction_counter c' = transaction_counter c
             \<and> transaction_process_queue c' = transaction_process_queue c
             \<and> transaction_list c' = transaction_list c)"
  using assms
  by (auto simp: queue_transaction_locked_def queue_work_def Let_def EINVAL_def
                 event_list_find_or_create_def event_list_create_def
           split: prod.splits if_splits option.splits)

lemma cancel_in_list_first:
  "cancel_in_list x ts = Some ts' \<Longrightarrow>
   \<exists>pre u post. ts = pre @ u # post \<and> filter (\<lambda>t. id' (info t) = x) pre = []
     \<and> id' (info u) = x
     \<and> ts' = pre @ u\<lparr>resp := (resp u)\<lparr>error_code := - ECANCELED\<rparr>\<rparr> # post"
proof (induction ts arbitrary: ts')
  case Nil
  then show ?case by simp
next
  case (Cons t ts)
  show ?case
  proof (cases "id' (info t) = x")
    case True
    with Cons.prems have "ts' = t\<lparr>resp := (resp t)\<lparr>error_code := - ECANCELED\<rparr>\<rparr> # ts" by simp
    with True have "t # ts = [] @ t # ts \<and> filter (\<lambda>t. id' (info t) = x) [] = []
     \<and> id' (info t) = x
     \<and> ts' = [] @ t\<lparr>resp := (resp t)\<lparr>error_code := - ECANCELED\<rparr>\<rparr> # ts" by simp
    then show ?thesis by blast
  next
    case False
    with Cons.prems obtain ts1 where c: "cancel_in_list x ts = Some ts1" and e: "ts' = t # ts1"
      by auto
    from Cons.IH [OF c] obtain pre u post where
      "ts = pre @ u # post" "filter (\<lambda>t. id' (info t) = x) pre = []" "id' (info u) = x"
      "ts1 = pre @ u\<lparr>resp := (resp u)\<lparr>error_code := - ECANCELED\<rparr>\<rparr> # post" by blast
    with False e have "t # ts = (t # pre) @ u # post
      \<and> filter (\<lambda>t. id' (info t) = x) (t # pre) = [] \<and> id' (info u) = x
      \<and> ts' = (t # pre) @ u\<lparr>resp := (resp u)\<lparr>error_code := - ECANCELED\<rparr>\<rparr> # post" by simp
    then show ?thesis by blast
  qed
qed

lemma cancel_in_lists_first:
  "cancel_in_lists x ls = Some ls' \<Longrightarrow>
   map fst ls' = map fst ls \<and> map (\<lambda>l. length (snd l)) ls' = map (\<lambda>l. length (snd l)) ls
   \<and> (\<exists>pre u post. concat (map snd ls) = pre @ u # post
         \<and> filter (\<lambda>t. id' (info t) = x) pre = [] \<and> id' (info u) = x
         \<and> concat (map snd ls') = pre @ u\<lparr>resp := (resp u)\<lparr>error_code := - ECANCELED\<rparr>\<rparr> # post)"
proof (induction ls arbitrary: ls')
  case Nil
  then show ?case by simp
next
  case (Cons l ls)
  show ?case
  proof (cases "cancel_in_list x (snd l)")
    case (Some ts')
    with Cons.prems have e: "ls' = (fst l, ts') # ls" by simp
    from cancel_in_list_first [OF Some] obtain pre u post where
      p: "snd l = pre @ u # post" "filter (\<lambda>t. id' (info t) = x) pre = []" "id' (info u) = x"
      "ts' = pre @ u\<lparr>resp := (resp u)\<lparr>error_code := - ECANCELED\<rparr>\<rparr> # post" by blast
    then have "concat (map snd (l # ls)) = pre @ u # (post @ concat (map snd ls))
         \<and> filter (\<lambda>t. id' (info t) = x) pre = [] \<and> id' (info u) = x
         \<and> concat (map snd ls') = pre @ u\<lparr>resp := (resp u)\<lparr>error_code := - ECANCELED\<rparr>\<rparr>
              # (post @ concat (map snd ls))"
      using e by simp
    then have "\<exists>pre u post. concat (map snd (l # ls)) = pre @ u # post
         \<and> filter (\<lambda>t. id' (info t) = x) pre = [] \<and> id' (info u) = x
         \<and> concat (map snd ls') = pre @ u\<lparr>resp := (resp u)\<lparr>error_code := - ECANCELED\<rparr>\<rparr> # post"
      by blast
    moreover have "map fst ls' = map fst (l # ls)" using e by simp
    moreover have "map (\<lambda>l. length (snd l)) ls' = map (\<lambda>l. length (snd l)) (l # ls)"
      using e p by simp
    ultimately show ?thesis by blast
  next
    case None
    with Cons.prems obtain ls1 where c: "cancel_in_lists x ls = Some ls1" and e: "ls' = l # ls1"
      by auto
    from None have n: "filter (\<lambda>t. id' (info t) = x) (snd l) = []"
      by (simp add: cancel_in_list_none)
    from Cons.IH [OF c] obtain pre u post where
      m: "map fst ls1 = map fst ls" "map (\<lambda>l. length (snd l)) ls1 = map (\<lambda>l. length (snd l)) ls"
      and p: "concat (map snd ls) = pre @ u # post" "filter (\<lambda>t. id' (info t) = x) pre = []"
        "id' (info u) = x"
        "concat (map snd ls1) = pre @ u\<lparr>resp := (resp u)\<lparr>error_code := - ECANCELED\<rparr>\<rparr> # post"
      by blast
    from p n e have "concat (map snd (l # ls)) = (snd l @ pre) @ u # post
         \<and> filter (\<lambda>t. id' (info t) = x) (snd l @ pre) = [] \<and> id' (info u) = x
         \<and> concat (map snd ls') = (snd l @ pre) @ u\<lparr>resp := (resp u)\<lparr>error_code := - ECANCELED\<rparr>\<rparr> # post"
      by simp
    then have "\<exists>pre u post. concat (map snd (l # ls)) = pre @ u # post
         \<and> filter (\<lambda>t. id' (info t) = x) pre = [] \<and> id' (info u) = x
         \<and> concat (map snd ls') = pre @ u\<lparr>resp := (resp u)\<lparr>error_code := - ECANCELED\<rparr>\<rparr> # post"
      by blast
    with m e show ?thesis by simp
  qed
qed

text \<open>
  Claim C8, as amended.  Replace validates with \<^verbatim>\<open>check_transaction_param_locked\<close> called
  with \<open>allow_counter_eq\<close> false, whatever the transaction's own flag says; a failed validation
  is returned with nothing cancelled or queued.  After a passed validation, replace returns
  \<open>-ENOENT\<close> with nothing changed when no waiting transaction has the submitted id.
  Otherwise the first waiting transaction with that id gets error code \<open>-ECANCELED\<close> in
  place, and then the response is prepared and the transaction queued as in submit: on
  success the new transaction has the transaction counter as its id and is appended to the
  process queue or to the event list of its trigger event.  No step takes or releases the
  transaction lock.
\<close>

theorem replace_validates_cancels_requeues:
  assumes chk: "check_transaction_param_locked K B c t False = (r1, t1, c1)"
      and rep: "lwis_transaction_replace_locked K B dev c t = (ret, t', c')"
  shows "transaction_lock c' = transaction_lock c
       \<and> (r1 \<noteq> 0 \<longrightarrow> ret = r1 \<and> c' = c1)
       \<and> (r1 = 0 \<and> filter (\<lambda>u. id' (info u) = id' (info t)) (waiting c) = [] \<longrightarrow>
            ret = - ENOENT \<and> c' = c1)
       \<and> c1 = c\<lparr>world := world c1\<rparr>
       \<and> (r1 = 0 \<and> filter (\<lambda>u. id' (info u) = id' (info t)) (waiting c) \<noteq> [] \<longrightarrow>
            (\<exists>ls pre u post.
               cancel_in_lists (id' (info t)) (transaction_list c) = Some ls
               \<and> map fst ls = map fst (transaction_list c)
               \<and> waiting c = pre @ u # post
               \<and> filter (\<lambda>u. id' (info u) = id' (info t)) pre = []
               \<and> id' (info u) = id' (info t)
               \<and> concat (map snd ls)
                   = pre @ u\<lparr>resp := (resp u)\<lparr>error_code := - ECANCELED\<rparr>\<rparr> # post
               \<and> (if ret = 0 then
                     id' (info t') = transaction_counter c
                     \<and> resp_id (resp t') = transaction_counter c
                     \<and> error_code (resp t') = 0
                     \<and> transaction_counter c' = transaction_counter c + 1
                     \<and> (if trigger_event_id (info t') = LWIS_EVENT_ID_NONE K then
                           transaction_process_queue c' = transaction_process_queue c @ [t']
                           \<and> transaction_list c' = ls
                         else
                           transaction_process_queue c' = transaction_process_queue c
                           \<and> transaction_list c' =
                               event_list_update (trigger_event_id (info t')) (\<lambda>ts. ts @ [t'])
                                 (case find (\<lambda>l. fst l = trigger_event_id (info t')) ls of
                                    None \<Rightarrow> (trigger_event_id (info t'), []) # ls
                                  | Some l \<Rightarrow> ls))
                   else
                     transaction_list c' = ls
                     \<and> transaction_process_queue c' = transaction_process_queue c
                     \<and> transaction_counter c' = transaction_counter c)))"
proof -
  from check_frame [OF chk] have c1: "c1 = c\<lparr>world := world c1\<rparr>" .
  have fr1: "transaction_list c1 = transaction_list c"
    "transaction_process_queue c1 = transaction_process_queue c"
    "transaction_counter c1 = transaction_counter c"
    "transaction_lock c1 = transaction_lock c"
    by (subst c1, simp)+
  from check_id [OF chk] have id1: "id' (info t1) = id' (info t)" .
  show ?thesis
  proof (cases "r1 = 0")
    case False
    with chk rep have "ret = r1" "c' = c1" by (simp_all add: lwis_transaction_replace_locked_def)
    with False c1 fr1 show ?thesis by simp
  next
    case True
    show ?thesis
    proof (cases "cancel_in_lists (id' (info t)) (transaction_list c)")
      case None
      then have nw: "filter (\<lambda>u. id' (info u) = id' (info t)) (waiting c) = []"
        by (simp add: cancel_in_lists_none waiting_def)
      from None True chk rep id1 fr1 have "ret = - ENOENT" "c' = c1"
        by (simp_all add: lwis_transaction_replace_locked_def
              cancel_waiting_transaction_locked_def ENOENT_def)
      with True nw c1 fr1 show ?thesis by simp
    next
      case (Some ls)
      then have w: "filter (\<lambda>u. id' (info u) = id' (info t)) (waiting c) \<noteq> []"
        using cancel_in_lists_none [of "id' (info t)" "transaction_list c"]
        by (simp add: waiting_def)
      from cancel_in_lists_first [OF Some] obtain pre u post where
        m: "map fst ls = map fst (transaction_list c)"
        and p: "waiting c = pre @ u # post"
          "filter (\<lambda>u. id' (info u) = id' (info t)) pre = []"
          "id' (info u) = id' (info t)"
          "concat (map snd ls) = pre @ u\<lparr>resp := (resp u)\<lparr>error_code := - ECANCELED\<rparr>\<rparr> # post"
        unfolding waiting_def by blast
      let ?c2 = "c1\<lparr>transaction_list := ls\<rparr>"
      have cw: "cancel_waiting_transaction_locked c1 (id' (info t1)) = (0, ?c2)"
        using Some id1 fr1 by (simp add: cancel_waiting_transaction_locked_def)
      obtain r3 t3 c3 where prep: "prepare_response_locked K B dev ?c2 t1 = (r3, t3, c3)"
        by (cases "prepare_response_locked K B dev ?c2 t1") auto
      from prepare_response_frame [OF prep]
      have t3: "info t3 = (info t1)\<lparr>id' := transaction_counter ?c2\<rparr>"
        and c3: "c3 = ?c2\<lparr>world := world c3\<rparr>"
        and r3ok: "r3 = 0 \<longrightarrow> resp_id (resp t3) = transaction_counter ?c2
                     \<and> error_code (resp t3) = 0"
        by simp_all
      have fr3: "transaction_list c3 = ls"
        "transaction_process_queue c3 = transaction_process_queue c"
        "transaction_counter c3 = transaction_counter c"
        "transaction_lock c3 = transaction_lock c"
        by (subst c3, simp add: fr1)+
      have ef: "event_list_find c3 e = find (\<lambda>l. fst l = e) ls" for e
        by (simp add: event_list_find_def fr3)
      show ?thesis
      proof (cases "r3 = 0")
        case False
        with True chk rep cw prep have "ret = r3" "c' = c3" "ret \<noteq> 0"
          by (simp_all add: lwis_transaction_replace_locked_def)
        with fr3 have main: "if ret = 0 then
                     id' (info t') = transaction_counter c
                     \<and> resp_id (resp t') = transaction_counter c
                     \<and> error_code (resp t') = 0
                     \<and> transaction_counter c' = transaction_counter c + 1
                     \<and> (if trigger_event_id (info t') = LWIS_EVENT_ID_NONE K then
                           transaction_process_queue c' = transaction_process_queue c @ [t']
                           \<and> transaction_list c' = ls
                         else
                           transaction_process_queue c' = transaction_process_queue c
                           \<and> transaction_list c' =
                               event_list_update (trigger_event_id (info t')) (\<lambda>ts. ts @ [t'])
                                 (case find (\<lambda>l. fst l = trigger_event_id (info t')) ls of
                                    None \<Rightarrow> (trigger_event_id (info t'), []) # ls
                                  | Some l \<Rightarrow> ls))
                   else
                     transaction_list c' = ls
                     \<and> transaction_process_queue c' = transaction_process_queue c
                     \<and> transaction_counter c' = transaction_counter c"
          and lk: "transaction_lock c' = transaction_lock c" by simp_all
        show ?thesis using True w c1 Some m p main lk by blast
      next
        case r3: True
        with True chk rep cw prep have q: "queue_transaction_locked K B c3 t3 = (ret, t', c')"
          by (simp add: lwis_transaction_replace_locked_def)
        note qr = queue_result [OF q]
        from qr t3 fr1 have idt: "id' (info t') = transaction_counter c" by simp
        from q r3 r3ok fr1 have rt: "resp_id (resp t') = transaction_counter c
            \<and> error_code (resp t') = 0"
          by (auto simp: queue_transaction_locked_def Let_def split: prod.splits if_splits option.splits)
        from qr have te: "trigger_event_id (info t') = trigger_event_id (info t3)" by simp
        have main: "if ret = 0 then
                     id' (info t') = transaction_counter c
                     \<and> resp_id (resp t') = transaction_counter c
                     \<and> error_code (resp t') = 0
                     \<and> transaction_counter c' = transaction_counter c + 1
                     \<and> (if trigger_event_id (info t') = LWIS_EVENT_ID_NONE K then
                           transaction_process_queue c' = transaction_process_queue c @ [t']
                           \<and> transaction_list c' = ls
                         else
                           transaction_process_queue c' = transaction_process_queue c
                           \<and> transaction_list c' =
                               event_list_update (trigger_event_id (info t')) (\<lambda>ts. ts @ [t'])
                                 (case find (\<lambda>l. fst l = trigger_event_id (info t')) ls of
                                    None \<Rightarrow> (trigger_event_id (info t'), []) # ls
                                  | Some l \<Rightarrow> ls))
                   else
                     transaction_list c' = ls
                     \<and> transaction_process_queue c' = transaction_process_queue c
                     \<and> transaction_counter c' = transaction_counter c"
          using qr idt rt te fr3 ef by (simp split: if_splits cong: option.case_cong)
        have lk: "transaction_lock c' = transaction_lock c" using qr fr3 by simp
        show ?thesis using True w c1 Some m p main lk by blast
      qed
    qed
  qed
qed

theorem replace_witness:
  "fst (check_transaction_param_locked sim_defs sim_env cancel_client replacement False) = 0
   \<and> filter (\<lambda>u. id' (info u) = id' (info replacement)) (waiting cancel_client) \<noteq> []
   \<and> (case lwis_transaction_replace_locked sim_defs sim_env sim_dev cancel_client replacement of
        (ret, t', c') \<Rightarrow>
          ret = 0 \<and> id' (info t') = 0 \<and> transaction_counter c' = 1
          \<and> waiting c' = [cancel_transaction'\<lparr>resp := sim_resp\<lparr>error_code := - ECANCELED\<rparr>\<rparr>, t'])"
proof -
  let ?X = "check_transaction_param_locked sim_defs sim_env cancel_client replacement False"
  let ?R = "lwis_transaction_replace_locked sim_defs sim_env sim_dev cancel_client replacement"
  have chk: "?X = (fst ?X, fst (snd ?X), snd (snd ?X))" by simp
  have rep: "?R = (fst ?R, fst (snd ?R), snd (snd ?R))" by simp
  have r1: "fst ?X = 0"
    by (simp add: cancel_client_def replacement_def sim_simps manager_simps Let_def word_sless_alt)
  have w: "filter (\<lambda>u. id' (info u) = id' (info replacement)) (waiting cancel_client) \<noteq> []"
    by (simp add: cancel_client_def replacement_def cancel_transaction'_def sim_simps waiting_def)
  have ev: "fst ?R = 0
    \<and> waiting (snd (snd ?R))
        = [cancel_transaction'\<lparr>resp := sim_resp\<lparr>error_code := - ECANCELED\<rparr>\<rparr>, fst (snd ?R)]"
    by (simp add: cancel_client_def replacement_def cancel_transaction'_def sim_simps
          manager_simps cancel_simps Let_def word_sless_alt errno_simps)
  from replace_validates_cancels_requeues [OF chk rep] r1 w ev
  have "id' (info (fst (snd ?R))) = transaction_counter cancel_client
        \<and> transaction_counter (snd (snd ?R)) = transaction_counter cancel_client + 1"
    by auto
  then have "id' (info (fst (snd ?R))) = 0 \<and> transaction_counter (snd (snd ?R)) = 1"
    by (simp add: cancel_client_def sim_simps)
  with r1 w ev show ?thesis by (simp add: case_prod_beta)
qed

text \<open>
  The claim as stated fails: a transaction that allows counter-equals and whose trigger
  counter equals the event's counter passes the validation of submit (and is submitted as an
  immediate transaction), while replace rejects it with \<open>-ENOENT\<close> although a waiting
  transaction with its id exists.
\<close>

theorem replace_validation_counterexample:
  "allow_counter_eq (info eq_transaction)
   \<and> filter (\<lambda>u. id' (info u) = id' (info eq_transaction)) (waiting eq_client) \<noteq> []
   \<and> fst (check_transaction_param_locked sim_defs sim_env eq_client eq_transaction
            (allow_counter_eq (info eq_transaction))) = 0
   \<and> fst (lwis_transaction_submit_locked sim_defs sim_env sim_dev eq_client eq_transaction) = 0
   \<and> fst (lwis_transaction_replace_locked sim_defs sim_env sim_dev eq_client eq_transaction)
       = - ENOENT"
  by (simp add: eq_client_def eq_transaction_def cancel_client_def cancel_transaction'_def
        late_world_def sim_simps manager_simps cancel_simps Let_def errno_simps)

section \<open>Event trigger dispatch\<close>

lemma trigger_loop_append:
  "trigger_loop K B dev ec irq (xs @ ys) pe c =
     (case trigger_loop K B dev ec irq xs pe c of
        None \<Rightarrow> None
      | Some (rx, pe1, c1) \<Rightarrow>
          (case trigger_loop K B dev ec irq ys pe1 c1 of
             None \<Rightarrow> None
           | Some (ry, pe2, c2) \<Rightarrow> Some (rx @ ry, pe2, c2)))"
proof (induction xs arbitrary: pe c)
  case Nil
  then show ?case by (simp split: option.splits)
next
  case (Cons x xs)
  show ?case
    by (simp add: Cons.IH split: option.splits prod.splits)
qed

lemma trigger_loop_skip:
  assumes "error_code (resp t) = 0"
      and "EXPLICIT_EVENT_COUNTER K (trigger_event_counter (info t))"
      and "trigger_event_counter (info t) \<noteq> ec"
  shows "trigger_loop K B dev ec irq [t] pe c = Some ([t], pe, c)"
  using assms by (simp add: EXPLICIT_EVENT_COUNTER_def)

lemma process_transaction_frame:
  "process_transaction K B dev c t pe irq = Some (ret, pe', c') \<Longrightarrow>
   transaction_list c' = transaction_list c
   \<and> transaction_process_queue c' = transaction_process_queue c
   \<and> transaction_counter c' = transaction_counter c
   \<and> transaction_lock c' = transaction_lock c
   \<and> transaction_wq c' = transaction_wq c
   \<and> work_pending c' = work_pending c
   \<and> emitted c' = emitted c"
  by (auto simp: process_transaction_def Let_def save_transaction_to_history_def
           split: option.splits prod.splits)

lemma new_repeating_frame:
  "new_repeating_transaction_iteration K B c t = (r, c') \<Longrightarrow> c' = c\<lparr>world := world c'\<rparr>"
  by (auto simp: new_repeating_transaction_iteration_def split: prod.splits if_splits)

lemma trigger_loop_frame:
  "trigger_loop K B dev ec irq ts pe c = Some (r, pe', c') \<Longrightarrow>
   transaction_list c' = transaction_list c \<and> emitted c' = emitted c
   \<and> transaction_counter c' = transaction_counter c"
proof (induction ts arbitrary: pe c r pe' c')
  case Nil
  then show ?case by simp
next
  case (Cons t ts)
  show ?case
  proof (cases "error_code (resp t) \<noteq> 0")
    case True
    with Cons.prems have "trigger_loop K B dev ec irq ts pe (process_queue_add_tail t c) = Some (r, pe', c')"
      by simp
    from Cons.IH [OF this] show ?thesis by (simp add: process_queue_add_tail_def)
  next
    case False
    then have e0: "error_code (resp t) = 0" by simp
    show ?thesis
    proof (cases "trigger_event_counter (info t) = LWIS_EVENT_COUNTER_ON_NEXT_OCCURRENCE K
              \<or> trigger_event_counter (info t) = ec")
      case True
      show ?thesis
      proof (cases "run_inline K dev t")
        case inl: True
        with True e0 Cons.prems obtain ret pe1 c1 where
          p: "process_transaction K B dev (spin_unlock_irqrestore c) t pe irq = Some (ret, pe1, c1)"
          and l: "trigger_loop K B dev ec irq ts pe1 (spin_lock_irqsave c1) = Some (r, pe', c')"
          by (auto split: option.splits)
        from Cons.IH [OF l] process_transaction_frame [OF p] show ?thesis
          by (simp add: spin_lock_irqsave_def spin_unlock_irqrestore_def)
      next
        case False
        with True e0 Cons.prems
        have "trigger_loop K B dev ec irq ts pe (process_queue_add_tail t c) = Some (r, pe', c')"
          by simp
        from Cons.IH [OF this] show ?thesis by (simp add: process_queue_add_tail_def)
      qed
    next
      case nm: False
      show ?thesis
      proof (cases "trigger_event_counter (info t) = LWIS_EVENT_COUNTER_EVERY_TIME K")
        case False
        with nm e0 Cons.prems obtain rest where
          "trigger_loop K B dev ec irq ts pe c = Some (rest, pe', c')"
          by (auto split: option.splits)
        from Cons.IH [OF this] show ?thesis .
      next
        case True
        obtain n c1 where nr: "new_repeating_transaction_iteration K B c t = (n, c1)"
          by (cases "new_repeating_transaction_iteration K B c t") auto
        from new_repeating_frame [OF nr] have c1: "c1 = c\<lparr>world := world c1\<rparr>" .
        have fr1: "transaction_list c1 = transaction_list c" "emitted c1 = emitted c"
          "transaction_counter c1 = transaction_counter c"
          by (subst c1, simp)+
        show ?thesis
        proof (cases n)
          case None
          with True nm e0 nr Cons.prems
          have "trigger_loop K B dev ec irq ts pe
                  (process_queue_add_tail (t\<lparr>resp := (resp t)\<lparr>error_code := - ENOMEM\<rparr>\<rparr>) c1)
                = Some (r, pe', c')" by simp
          from Cons.IH [OF this] fr1 show ?thesis by (simp add: process_queue_add_tail_def)
        next
          case (Some ni)
          show ?thesis
          proof (cases "run_inline K dev t")
            case inl: True
            with True nm e0 nr Some Cons.prems obtain ret pe1 c2 rest where
              p: "process_transaction K B dev (spin_unlock_irqrestore c1) ni pe irq = Some (ret, pe1, c2)"
              and l: "trigger_loop K B dev ec irq ts pe1 (spin_lock_irqsave c2) = Some (rest, pe', c')"
              by (auto split: option.splits)
            from Cons.IH [OF l] process_transaction_frame [OF p] fr1 show ?thesis
              by (simp add: spin_lock_irqsave_def spin_unlock_irqrestore_def)
          next
            case False
            with True nm e0 nr Some Cons.prems obtain rest where
              "trigger_loop K B dev ec irq ts pe (process_queue_add_tail ni c1) = Some (rest, pe', c')"
              by (auto split: option.splits)
            from Cons.IH [OF this] fr1 show ?thesis by (simp add: process_queue_add_tail_def)
          qed
        qed
      qed
    qed
  qed
qed

lemma find_event_list_update:
  "find (\<lambda>l. fst l = e) ls = Some l \<Longrightarrow>
   find (\<lambda>l. fst l = e) (event_list_update e f ls) = Some (e, f (snd l))"
  by (induction ls) (auto split: if_splits)

text \<open>
  Claim C10.  A waiting transaction \<open>t\<close> without error whose trigger counter is explicit and
  differs from the counter of the firing event is skipped by the dispatch loop: the loop over
  a list that holds \<open>t\<close> does exactly what it does on the transactions before \<open>t\<close> and
  then on those after \<open>t\<close> (so \<open>t\<close> is neither executed nor queued, and nothing else
  depends on it), and \<open>t\<close> itself, info and response unchanged, stays between what is left
  of the two parts.  After \<^verbatim>\<open>lwis_transaction_event_trigger\<close> the event list holds \<open>t\<close> at
  that place.
\<close>

theorem trigger_leaves_unmatched_transaction:
  assumes e0: "error_code (resp t) = 0"
      and ex: "EXPLICIT_EVENT_COUNTER K (trigger_event_counter (info t))"
      and ne: "trigger_event_counter (info t) \<noteq> event_counter"
  shows "trigger_loop K B dev event_counter in_irq (xs @ t # ys) pe c =
           (case trigger_loop K B dev event_counter in_irq xs pe c of
              None \<Rightarrow> None
            | Some (rx, pe1, c1) \<Rightarrow>
                (case trigger_loop K B dev event_counter in_irq ys pe1 c1 of
                   None \<Rightarrow> None
                 | Some (ry, pe2, c2) \<Rightarrow> Some (rx @ t # ry, pe2, c2)))
       \<and> (event_list_find c event_id = Some (event_id, xs @ t # ys)
            \<and> lwis_transaction_event_trigger K B dev c event_id event_counter pe in_irq
                = Some (ret, pe', c') \<longrightarrow>
            (\<exists>rx ry pe1 c1 c2.
               trigger_loop K B dev event_counter in_irq xs pe (spin_lock_irqsave c)
                 = Some (rx, pe1, c1)
               \<and> trigger_loop K B dev event_counter in_irq ys pe1 c1 = Some (ry, pe', c2)
               \<and> event_list_find c' event_id = Some (event_id, rx @ t # ry)
               \<and> transaction_process_queue c' = transaction_process_queue c2
               \<and> io_mem c' = io_mem c2 \<and> world c' = world c2))"
proof (rule conjI)
  have one: "trigger_loop K B dev event_counter in_irq [t] q d = Some ([t], q, d)" for q d
    using e0 ex ne by (rule trigger_loop_skip)
  have eq: "trigger_loop K B dev event_counter in_irq (xs @ t # ys) q d =
           (case trigger_loop K B dev event_counter in_irq xs q d of
              None \<Rightarrow> None
            | Some (rx, pe1, c1) \<Rightarrow>
                (case trigger_loop K B dev event_counter in_irq ys pe1 c1 of
                   None \<Rightarrow> None
                 | Some (ry, pe2, c2) \<Rightarrow> Some (rx @ t # ry, pe2, c2)))" for q d
  proof -
    have "trigger_loop K B dev event_counter in_irq (xs @ [t] @ ys) q d =
           (case trigger_loop K B dev event_counter in_irq xs q d of
              None \<Rightarrow> None
            | Some (rx, pe1, c1) \<Rightarrow>
                (case trigger_loop K B dev event_counter in_irq ys pe1 c1 of
                   None \<Rightarrow> None
                 | Some (ry, pe2, c2) \<Rightarrow> Some (rx @ t # ry, pe2, c2)))"
      unfolding trigger_loop_append one by (simp split: option.splits)
    then show ?thesis by simp
  qed
  show "trigger_loop K B dev event_counter in_irq (xs @ t # ys) pe c =
           (case trigger_loop K B dev event_counter in_irq xs pe c of
              None \<Rightarrow> None
            | Some (rx, pe1, c1) \<Rightarrow>
                (case trigger_loop K B dev event_counter in_irq ys pe1 c1 of
                   None \<Rightarrow> None
                 | Some (ry, pe2, c2) \<Rightarrow> Some (rx @ t # ry, pe2, c2)))"
    by (rule eq)
  show "event_list_find c event_id = Some (event_id, xs @ t # ys)
            \<and> lwis_transaction_event_trigger K B dev c event_id event_counter pe in_irq
                = Some (ret, pe', c') \<longrightarrow>
            (\<exists>rx ry pe1 c1 c2.
               trigger_loop K B dev event_counter in_irq xs pe (spin_lock_irqsave c)
                 = Some (rx, pe1, c1)
               \<and> trigger_loop K B dev event_counter in_irq ys pe1 c1 = Some (ry, pe', c2)
               \<and> event_list_find c' event_id = Some (event_id, rx @ t # ry)
               \<and> transaction_process_queue c' = transaction_process_queue c2
               \<and> io_mem c' = io_mem c2 \<and> world c' = world c2)"
  proof
    assume a: "event_list_find c event_id = Some (event_id, xs @ t # ys)
            \<and> lwis_transaction_event_trigger K B dev c event_id event_counter pe in_irq
                = Some (ret, pe', c')"
    let ?c0 = "spin_lock_irqsave c"
    from a have f0: "event_list_find ?c0 event_id = Some (event_id, xs @ t # ys)"
      by (simp add: event_list_find_def spin_lock_irqsave_def)
    from a f0 obtain rest c2 where
      l: "trigger_loop K B dev event_counter in_irq (xs @ t # ys) pe ?c0 = Some (rest, pe', c2)"
      and c': "c' = spin_unlock_irqrestore
                 (let c3 = c2\<lparr>transaction_list :=
                               event_list_update event_id (\<lambda>ts. rest) (transaction_list c2)\<rparr>
                  in if transaction_process_queue c3 \<noteq> [] then queue_work c3 else c3)"
      by (auto simp: lwis_transaction_event_trigger_def Let_def split: option.splits)
    from l obtain rx pe1 c1 ry where
      lx: "trigger_loop K B dev event_counter in_irq xs pe ?c0 = Some (rx, pe1, c1)"
      and ly: "trigger_loop K B dev event_counter in_irq ys pe1 c1 = Some (ry, pe', c2)"
      and rest: "rest = rx @ t # ry"
      unfolding eq by (auto split: option.splits)
    from trigger_loop_frame [OF l] have tl: "transaction_list c2 = transaction_list c"
      by (simp add: spin_lock_irqsave_def)
    from a have "find (\<lambda>l. fst l = event_id) (transaction_list c2) = Some (event_id, xs @ t # ys)"
      by (simp add: event_list_find_def tl)
    from find_event_list_update [OF this, of "\<lambda>ts. rest"]
    have "event_list_find c' event_id = Some (event_id, rest)"
      by (simp add: c' event_list_find_def Let_def queue_work_def spin_unlock_irqrestore_def)
    moreover have "transaction_process_queue c' = transaction_process_queue c2"
      "io_mem c' = io_mem c2" "world c' = world c2"
      by (simp_all add: c' Let_def queue_work_def spin_unlock_irqrestore_def)
    ultimately show "\<exists>rx ry pe1 c1 c2.
               trigger_loop K B dev event_counter in_irq xs pe (spin_lock_irqsave c)
                 = Some (rx, pe1, c1)
               \<and> trigger_loop K B dev event_counter in_irq ys pe1 c1 = Some (ry, pe', c2)
               \<and> event_list_find c' event_id = Some (event_id, rx @ t # ry)
               \<and> transaction_process_queue c' = transaction_process_queue c2
               \<and> io_mem c' = io_mem c2 \<and> world c' = world c2"
      using lx ly rest by blast
  qed
qed

theorem trigger_unmatched_witness:
  "error_code (resp cancel_transaction') = 0
   \<and> EXPLICIT_EVENT_COUNTER sim_defs (trigger_event_counter (info cancel_transaction'))
   \<and> trigger_event_counter (info cancel_transaction') \<noteq> 3
   \<and> trigger_loop sim_defs sim_env sim_dev 3 False
        ([next_transaction] @ cancel_transaction' # []) (Some []) sim_client
       = Some ([cancel_transaction'], Some [],
               sim_client\<lparr>transaction_process_queue := [next_transaction]\<rparr>)"
proof -
  have e0: "error_code (resp cancel_transaction') = 0"
    by (simp add: cancel_transaction'_def sim_simps)
  have ex: "EXPLICIT_EVENT_COUNTER sim_defs (trigger_event_counter (info cancel_transaction'))"
    by (simp add: cancel_transaction'_def sim_simps EXPLICIT_EVENT_COUNTER_def)
  have ne: "trigger_event_counter (info cancel_transaction') \<noteq> 3"
    by (simp add: cancel_transaction'_def sim_simps)
  have pre: "trigger_loop sim_defs sim_env sim_dev 3 False [next_transaction] (Some []) sim_client
       = Some ([], Some [], sim_client\<lparr>transaction_process_queue := [next_transaction]\<rparr>)"
    by (simp add: next_transaction_def sim_simps trigger_simps)
  from trigger_leaves_unmatched_transaction [OF e0 ex ne, THEN conjunct1,
         of sim_env sim_dev False "[next_transaction]" "[]" "Some []" sim_client]
  have "trigger_loop sim_defs sim_env sim_dev 3 False
        ([next_transaction] @ cancel_transaction' # []) (Some []) sim_client
       = Some ([cancel_transaction'], Some [],
               sim_client\<lparr>transaction_process_queue := [next_transaction]\<rparr>)"
    unfolding pre by simp
  with e0 ex ne show ?thesis by blast
qed

section \<open>The worker and flush\<close>

lemma not_poll_bias: "not_poll (lwis_entry_bias e b) = not_poll e"
  by (cases e) (simp_all add: lwis_entry_bias_def)

lemma process_entry_not_poll:
  "not_poll e \<Longrightarrow>
   \<exists>out. process_entry B dev irq e b rs w = Some out
     \<and> (case out of Entry_Done e' b' rs' w' \<Rightarrow> not_poll e'
                    | Entry_Fail ret e' rs' w' \<Rightarrow> not_poll e')"
  by (cases e)
     (auto simp: process_entry_def process_write_def Let_def split: prod.splits if_splits)

lemma process_io_entries_no_poll:
  "list_all not_poll es \<Longrightarrow>
   \<exists>ret es' rs' w'. process_io_entries B dev irq es i b rs w = Some (ret, es', rs', w')
     \<and> list_all not_poll es'"
proof (induction es arbitrary: i b rs w)
  case Nil
  then show ?case by simp
next
  case (Cons e es)
  then have "not_poll (lwis_entry_bias e b)" by (simp add: not_poll_bias)
  from process_entry_not_poll [OF this, of B dev irq b rs w]
  obtain out where o: "process_entry B dev irq (lwis_entry_bias e b) b rs w = Some out"
    and np: "case out of Entry_Done e' b' rs' w' \<Rightarrow> not_poll e'
                    | Entry_Fail ret e' rs' w' \<Rightarrow> not_poll e'" by blast
  show ?case
  proof (cases out)
    case (Entry_Fail ret e' rs' w')
    with o np Cons.prems show ?thesis by simp
  next
    case (Entry_Done e' b' rs' w')
    from Cons.prems have "list_all not_poll es" by simp
    from Cons.IH [OF this, of "i + 1" b' "rs'\<lparr>completion_index := i\<rparr>" w']
    obtain ret es' rs'' w'' where
      "process_io_entries B dev irq es (i + 1) b' (rs'\<lparr>completion_index := i\<rparr>) w'
         = Some (ret, es', rs'', w'')" "list_all not_poll es'" by blast
    with o np Entry_Done show ?thesis by simp
  qed
qed

lemma process_transaction_pushes_one:
  "process_transaction K B dev c t (Some l) irq = Some (ret, pe', c') \<Longrightarrow>
   \<exists>ev. pe' = Some (l @ [ev])"
  by (auto simp: process_transaction_def Let_def lwis_pending_event_push_def
           split: option.splits prod.splits)

lemma process_transaction_no_poll:
  assumes "no_poll (io_mem c (io_entries (info t)))"
  shows "\<exists>ret pe' c'. process_transaction K B dev c t pe irq = Some (ret, pe', c')
           \<and> (\<forall>a. no_poll (io_mem c a) \<longrightarrow> no_poll (io_mem c' a))"
proof -
  from assms have "list_all not_poll (io_mem c (io_entries (info t)))" by (simp add: no_poll_def)
  from process_io_entries_no_poll [OF this, of B dev irq 0 0
         "(resp t)\<lparr>completion_index := - 1\<rparr>" "world c"]
  obtain ret es' rs' w' where
    "process_io_entries B dev irq (io_mem c (io_entries (info t))) 0 0
       ((resp t)\<lparr>completion_index := - 1\<rparr>) (world c) = Some (ret, es', rs', w')"
    "list_all not_poll es'" by blast
  then show ?thesis
    by (simp add: process_transaction_def Let_def save_transaction_to_history_def no_poll_def)
qed

lemma cancel_transaction_pushes_one:
  "\<exists>ev. cancel_transaction K t err (Some l) = Some (l @ [ev])"
  by (simp add: cancel_transaction_def lwis_pending_event_push_def)

lemma work_loop_count:
  "work_loop K B dev q (Some l) c = Some (pe', c') \<Longrightarrow>
   (\<exists>evs. pe' = Some (l @ evs) \<and> length evs = length q)
   \<and> transaction_list c' = transaction_list c \<and> emitted c' = emitted c
   \<and> (q \<noteq> [] \<longrightarrow> transaction_process_queue c' = [])
   \<and> transaction_wq c' = transaction_wq c \<and> work_pending c' = work_pending c
   \<and> transaction_counter c' = transaction_counter c"
proof (induction q arbitrary: l c)
  case Nil
  then show ?case by simp
next
  case (Cons t q)
  let ?c1 = "c\<lparr>transaction_process_queue := q\<rparr>"
  show ?case
  proof (cases "error_code (resp t) \<noteq> 0")
    case True
    from cancel_transaction_pushes_one [of K t "error_code (resp t)" l]
    obtain ev where ev: "cancel_transaction K t (error_code (resp t)) (Some l) = Some (l @ [ev])"
      by blast
    with True Cons.prems have "work_loop K B dev q (Some (l @ [ev])) ?c1 = Some (pe', c')"
      by (simp add: Let_def)
    from Cons.IH [OF this] obtain evs where "pe' = Some ((l @ [ev]) @ evs)" "length evs = length q"
      and r: "transaction_list c' = transaction_list ?c1" "emitted c' = emitted ?c1"
        "q \<noteq> [] \<longrightarrow> transaction_process_queue c' = []"
        "transaction_wq c' = transaction_wq ?c1" "work_pending c' = work_pending ?c1"
        "transaction_counter c' = transaction_counter ?c1"
      by blast
    then have "pe' = Some (l @ (ev # evs)) \<and> length (ev # evs) = length (t # q)" by simp
    then have "\<exists>evs. pe' = Some (l @ evs) \<and> length evs = length (t # q)" by blast
    moreover have "transaction_process_queue c' = []"
    proof (cases q)
      case Nil
      with \<open>work_loop K B dev q (Some (l @ [ev])) ?c1 = Some (pe', c')\<close> show ?thesis by auto
    next
      case (Cons a list)
      with r show ?thesis by simp
    qed
    ultimately show ?thesis using r by simp
  next
    case False
    with Cons.prems obtain ret pe1 c2 where
      p: "process_transaction K B dev (spin_unlock_irqrestore ?c1) t (Some l) False
            = Some (ret, pe1, c2)"
      and w: "work_loop K B dev q pe1 (spin_lock_irqsave c2) = Some (pe', c')"
      by (auto simp: Let_def split: option.splits)
    from process_transaction_pushes_one [OF p] obtain ev where pe1: "pe1 = Some (l @ [ev])"
      by blast
    note fr = process_transaction_frame [OF p]
    from Cons.IH [OF w [unfolded pe1]] obtain evs where
      "pe' = Some ((l @ [ev]) @ evs)" "length evs = length q"
      and r: "transaction_list c' = transaction_list (spin_lock_irqsave c2)"
        "emitted c' = emitted (spin_lock_irqsave c2)"
        "q \<noteq> [] \<longrightarrow> transaction_process_queue c' = []"
        "transaction_wq c' = transaction_wq (spin_lock_irqsave c2)"
        "work_pending c' = work_pending (spin_lock_irqsave c2)"
        "transaction_counter c' = transaction_counter (spin_lock_irqsave c2)"
      by blast
    then have "pe' = Some (l @ (ev # evs)) \<and> length (ev # evs) = length (t # q)" by simp
    then have "\<exists>evs. pe' = Some (l @ evs) \<and> length evs = length (t # q)" by blast
    moreover have "transaction_process_queue c' = []"
    proof (cases q)
      case Nil
      with w fr show ?thesis
        by (auto simp: spin_lock_irqsave_def spin_unlock_irqrestore_def)
    next
      case (Cons a list)
      with r show ?thesis by simp
    qed
    ultimately show ?thesis using r fr
      by (simp add: spin_lock_irqsave_def spin_unlock_irqrestore_def)
  qed
qed



lemma transaction_work_func_result:
  "transaction_work_func K B dev c = Some c' \<Longrightarrow>
   (\<exists>evs. emitted c' = emitted c @ evs \<and> length evs = length (transaction_process_queue c))
   \<and> transaction_process_queue c' = []
   \<and> transaction_list c' = transaction_list c
   \<and> transaction_counter c' = transaction_counter c
   \<and> transaction_wq c' = transaction_wq c
   \<and> \<not> work_pending c' \<and> \<not> transaction_lock c'"
proof -
  assume a: "transaction_work_func K B dev c = Some c'"
  let ?c1 = "spin_lock_irqsave (c\<lparr>work_pending := False\<rparr>)"
  from a obtain pe c2 where
    w: "work_loop K B dev (transaction_process_queue c) (Some []) ?c1 = Some (pe, c2)"
    and c': "c' = lwis_pending_events_emit (spin_unlock_irqrestore c2) pe"
    by (auto simp: transaction_work_func_def Let_def spin_lock_irqsave_def split: option.splits)
  from work_loop_count [OF w] obtain evs where
    pe: "pe = Some evs" and len: "length evs = length (transaction_process_queue c)"
    and r: "transaction_list c2 = transaction_list ?c1" "emitted c2 = emitted ?c1"
      "transaction_process_queue c \<noteq> [] \<longrightarrow> transaction_process_queue c2 = []"
      "transaction_wq c2 = transaction_wq ?c1" "work_pending c2 = work_pending ?c1"
      "transaction_counter c2 = transaction_counter ?c1"
    by auto
  have q: "transaction_process_queue c2 = []"
  proof (cases "transaction_process_queue c")
    case Nil
    with w show ?thesis by (auto simp: spin_lock_irqsave_def)
  next
    case (Cons a list)
    with r show ?thesis by simp
  qed
  show ?thesis using pe len r q
    by (simp add: c' lwis_pending_events_emit_def spin_unlock_irqrestore_def spin_lock_irqsave_def)
qed




lemma process_transaction_same_store:
  assumes "same_store c d"
  shows "(case process_transaction K B dev c t pe irq of
            None \<Rightarrow> process_transaction K B dev d t pe irq = None
          | Some (r, pe', c') \<Rightarrow>
              \<exists>d'. process_transaction K B dev d t pe irq = Some (r, pe', d')
                \<and> same_store c' d')"
  using assms
  by (auto simp: process_transaction_def same_store_def Let_def save_transaction_to_history_def
           split: option.splits)

lemma process_transaction_pending:
  "process_transaction K B dev c t (Some l) irq =
     (case process_transaction K B dev c t (Some []) irq of
        None \<Rightarrow> None
      | Some (r, pe, c') \<Rightarrow> Some (r, map_option ((@) l) pe, c'))"
  by (auto simp: process_transaction_def Let_def lwis_pending_event_push_def
           split: option.splits)

lemma same_store_fields [simp]:
  "same_store (c\<lparr>transaction_process_queue := q\<rparr>) d = same_store c d"
  "same_store (spin_unlock_irqrestore c) d = same_store c d"
  "same_store (spin_lock_irqsave c) d = same_store c d"
  "same_store (c\<lparr>work_pending := b\<rparr>) d = same_store c d"
  "same_store (c\<lparr>transaction_list := ls\<rparr>) d = same_store c d"
  "same_store (c\<lparr>emitted := evs\<rparr>) d = same_store c d"
  by (simp_all add: same_store_def spin_unlock_irqrestore_def spin_lock_irqsave_def)

lemma work_loop_drain:
  "same_store c d \<Longrightarrow>
   (case drain_events K B dev q d of
      None \<Rightarrow> work_loop K B dev q (Some l) c = None
    | Some (evs, d') \<Rightarrow>
        \<exists>c'. work_loop K B dev q (Some l) c = Some (Some (l @ evs), c')
          \<and> same_store c' d' \<and> length evs = length q)"
proof (induction q arbitrary: l c d)
  case Nil
  then show ?case by simp
next
  case (Cons t q)
  let ?c1 = "c\<lparr>transaction_process_queue := q\<rparr>"
  show ?case
  proof (cases "error_code (resp t) \<noteq> 0")
    case True
    let ?ev = "\<lparr>pe_event_id = emit_error_event_id (info t),
                    pe_payload =
                      \<lparr>resp_id = id' (info t), error_code = error_code (resp t),
                       num_entries = 0, results_size_bytes = 0, completion_index = - 1,
                       results = [], alloc_size = sizeof_response_header K\<rparr>,
                    pe_size = sizeof_response_header K\<rparr>"
    have ct: "cancel_transaction K t (error_code (resp t)) (Some l) = Some (l @ [?ev])"
      by (simp add: cancel_transaction_def lwis_pending_event_push_def)
    from Cons.prems have s1: "same_store ?c1 d" by simp
    from Cons.IH [OF s1, of "l @ [?ev]"] True ct show ?thesis
      by (auto simp: Let_def split: option.splits)
  next
    case False
    from Cons.prems have s1: "same_store d (spin_unlock_irqrestore ?c1)"
      by (simp add: same_store_def spin_unlock_irqrestore_def)
    show ?thesis
    proof (cases "process_transaction K B dev d t (Some []) False")
      case None
      with process_transaction_same_store [OF s1, of K B dev t "Some []" False]
      have "process_transaction K B dev (spin_unlock_irqrestore ?c1) t (Some []) False = None"
        by simp
      then have "process_transaction K B dev (spin_unlock_irqrestore ?c1) t (Some l) False = None"
        by (subst process_transaction_pending) simp
      with None False show ?thesis by (simp add: Let_def)
    next
      case (Some x)
      then obtain r pe d1 where
        pd: "process_transaction K B dev d t (Some []) False = Some (r, pe, d1)"
        by (cases x) auto
      from process_transaction_pushes_one [OF pd] obtain ev where pe: "pe = Some [ev]" by auto
      from process_transaction_same_store [OF s1, of K B dev t "Some []" False] pd
      obtain c2 where
        pc: "process_transaction K B dev (spin_unlock_irqrestore ?c1) t (Some []) False
               = Some (r, pe, c2)"
        and s2: "same_store d1 c2" by auto
      have pl: "process_transaction K B dev (spin_unlock_irqrestore ?c1) t (Some l) False
               = Some (r, Some (l @ [ev]), c2)"
        by (subst process_transaction_pending) (simp add: pc pe)
      from s2 have s3: "same_store (spin_lock_irqsave c2) d1"
        by (simp add: same_store_def spin_lock_irqsave_def)
      from Cons.IH [OF s3, of "l @ [ev]"] False pd pl pe show ?thesis
        by (auto simp: Let_def split: option.splits)
    qed
  qed
qed

lemma transaction_work_func_drain:
  assumes s0: "same_store c d0"
  shows "(case drain_events K B dev (transaction_process_queue c) d0 of
      None \<Rightarrow> transaction_work_func K B dev c = None
    | Some (evs, d) \<Rightarrow>
        \<exists>c'. transaction_work_func K B dev c = Some c'
          \<and> emitted c' = emitted c @ evs \<and> same_store c' d
          \<and> length evs = length (transaction_process_queue c))"
proof -
  let ?c1 = "spin_lock_irqsave (c\<lparr>work_pending := False\<rparr>)"
  have s: "same_store ?c1 d0" using s0 by simp
  have q: "transaction_process_queue ?c1 = transaction_process_queue c"
    by (simp add: spin_lock_irqsave_def)
  show ?thesis
  proof (cases "drain_events K B dev (transaction_process_queue c) d0")
    case None
    with work_loop_drain [OF s, of K B dev "transaction_process_queue c" "[]"]
    show ?thesis by (simp add: transaction_work_func_def Let_def q)
  next
    case (Some x)
    then obtain evs d where
      dr: "drain_events K B dev (transaction_process_queue c) d0 = Some (evs, d)"
      by (cases x) auto
    with work_loop_drain [OF s, of K B dev "transaction_process_queue c" "[]"]
    obtain c2 where
      w: "work_loop K B dev (transaction_process_queue c) (Some []) ?c1 = Some (Some evs, c2)"
      and s2: "same_store c2 d" and len: "length evs = length (transaction_process_queue c)"
      by auto
    from work_loop_count [OF w] have em: "emitted c2 = emitted ?c1" by simp
    have "transaction_work_func K B dev c
            = Some (lwis_pending_events_emit (spin_unlock_irqrestore c2) (Some evs))"
      using w by (simp add: transaction_work_func_def Let_def q)
    moreover have "emitted (lwis_pending_events_emit (spin_unlock_irqrestore c2) (Some evs))
                     = emitted c @ evs"
      using em by (simp add: lwis_pending_events_emit_def spin_unlock_irqrestore_def
                     spin_lock_irqsave_def)
    moreover have "same_store (lwis_pending_events_emit (spin_unlock_irqrestore c2) (Some evs)) d"
      using s2 by (simp add: lwis_pending_events_emit_def)
    ultimately show ?thesis using dr len by simp
  qed
qed




section \<open>Repeating transactions\<close>

lemma event_list_update_same:
  "find (\<lambda>l. fst l = e) ls = Some (e, ts) \<Longrightarrow> event_list_update e (\<lambda>x. ts) ls = ls"
  by (induction ls) (auto split: if_splits)

lemma trigger_loop_every_time:
  assumes e0: "error_code (resp t) = 0"
      and et: "trigger_event_counter (info t) = LWIS_EVENT_COUNTER_EVERY_TIME K"
      and d: "LWIS_EVENT_COUNTER_EVERY_TIME K \<noteq> LWIS_EVENT_COUNTER_ON_NEXT_OCCURRENCE K"
      and ne: "ec \<noteq> LWIS_EVENT_COUNTER_EVERY_TIME K"
  shows "trigger_loop K B dev ec irq (xs @ t # ys) pe c =
     (case trigger_loop K B dev ec irq xs pe c of
        None \<Rightarrow> None
      | Some (rx, pe1, c1) \<Rightarrow>
          (case new_repeating_transaction_iteration K B c1 t of
             (None, c2) \<Rightarrow>
               (case trigger_loop K B dev ec irq ys pe1
                       (process_queue_add_tail (t\<lparr>resp := (resp t)\<lparr>error_code := - ENOMEM\<rparr>\<rparr>)
                          c2) of
                  None \<Rightarrow> None
                | Some (ry, pe2, c3) \<Rightarrow> Some (rx @ ry, pe2, c3))
           | (Some new_instance, c2) \<Rightarrow>
               (case (if run_inline K dev t then
                        (case process_transaction K B dev (spin_unlock_irqrestore c2)
                                new_instance pe1 irq of
                           None \<Rightarrow> None
                         | Some (ret, pe', c') \<Rightarrow> Some (pe', spin_lock_irqsave c'))
                      else Some (pe1, process_queue_add_tail new_instance c2)) of
                  None \<Rightarrow> None
                | Some (pe2, c3) \<Rightarrow>
                    (case trigger_loop K B dev ec irq ys pe2 c3 of
                       None \<Rightarrow> None
                     | Some (ry, pe3, c4) \<Rightarrow> Some (rx @ t # ry, pe3, c4)))))"
proof -
  have nm: "\<not> (trigger_event_counter (info t) = LWIS_EVENT_COUNTER_ON_NEXT_OCCURRENCE K
              \<or> trigger_event_counter (info t) = ec)"
    using et d ne by simp
  show ?thesis
    unfolding trigger_loop_append
    using e0 et nm by (simp split: option.splits prod.splits)
qed

lemma iteration_of_simps [simp]:
  "info (iteration_of K t) = info t"
  "error_code (resp (iteration_of K t)) = error_code (resp t)"
  by (simp_all add: iteration_of_def)

lemma new_repeating_alloc:
  "new_repeating_transaction_iteration K B c t =
     (case kzalloc B (world c) (sizeof_transaction K) of
        (ok1, w1) \<Rightarrow>
          if \<not> ok1 then (None, c\<lparr>world := w1\<rparr>)
          else (case kzalloc B w1 (sizeof_response_header K + results_size_bytes (resp t)) of
                  (ok2, w2) \<Rightarrow>
                    if \<not> ok2 then (None, c\<lparr>world := w2\<rparr>)
                    else (Some (iteration_of K t), c\<lparr>world := w2\<rparr>)))"
  by (simp add: new_repeating_transaction_iteration_def iteration_of_def split: prod.splits)

lemma new_repeating_succeeds:
  assumes "\<forall>w n. fst (kzalloc B w n)"
  shows "new_repeating_transaction_iteration K B c t =
           (Some (iteration_of K t), c\<lparr>world := allocations K B t (world c)\<rparr>)"
proof -
  obtain ok1 w1 where a1: "kzalloc B (world c) (sizeof_transaction K) = (ok1, w1)"
    by (cases "kzalloc B (world c) (sizeof_transaction K)") auto
  obtain ok2 w2 where a2: "kzalloc B w1 (sizeof_response_header K + results_size_bytes (resp t))
                            = (ok2, w2)"
    by (cases "kzalloc B w1 (sizeof_response_header K + results_size_bytes (resp t))") auto
  from assms a1 have "ok1" by (metis fst_conv)
  moreover from assms a2 have "ok2" by (metis fst_conv)
  ultimately show ?thesis using a1 a2
    by (simp add: new_repeating_alloc allocations_def)
qed

lemma drain_events_passes:
  "error_code (resp u) = 0 \<Longrightarrow>
   drain_events K B dev (replicate n u) c = passes K B dev False id u n c"
  by (induction n arbitrary: c) (simp_all split: option.splits)

lemma passes_returns:
  "no_poll (io_mem d (io_entries (info u))) \<Longrightarrow>
   \<exists>evs d'. passes K B dev irq g u n d = Some (evs, d') \<and> length evs = n
     \<and> no_poll (io_mem d' (io_entries (info u)))"
proof (induction n arbitrary: d)
  case 0
  then show ?case by simp
next
  case (Suc n)
  let ?d = "d\<lparr>world := g (world d)\<rparr>"
  from Suc.prems have np: "no_poll (io_mem ?d (io_entries (info u)))" by simp
  from process_transaction_no_poll [OF np, of K B dev "Some []" irq]
  obtain ret pe d1 where
    p: "process_transaction K B dev ?d u (Some []) irq = Some (ret, pe, d1)"
    and m: "\<forall>a. no_poll (io_mem ?d a) \<longrightarrow> no_poll (io_mem d1 a)" by blast
  from process_transaction_pushes_one [OF p] obtain ev where pe: "pe = Some [ev]" by auto
  from m np have "no_poll (io_mem d1 (io_entries (info u)))" by blast
  from Suc.IH [OF this] obtain evs d' where
    "passes K B dev irq g u n d1 = Some (evs, d')" "length evs = n"
    "no_poll (io_mem d' (io_entries (info u)))" by blast
  with p pe show ?case by simp
qed

lemma same_store_trans: "same_store c d \<Longrightarrow> same_store d e \<Longrightarrow> same_store c e"
  by (simp add: same_store_def)

lemma same_store_world: "same_store c d \<Longrightarrow> same_store (c\<lparr>world := w\<rparr>) (d\<lparr>world := w\<rparr>)"
  by (simp add: same_store_def)

lemma trigger_every_time_inline:
  assumes e0: "error_code (resp t) = 0"
      and et: "trigger_event_counter (info t) = LWIS_EVENT_COUNTER_EVERY_TIME K"
      and d: "LWIS_EVENT_COUNTER_EVERY_TIME K \<noteq> LWIS_EVENT_COUNTER_ON_NEXT_OCCURRENCE K"
      and al: "\<forall>w n. fst (kzalloc B w n)"
      and ne: "n \<noteq> LWIS_EVENT_COUNTER_EVERY_TIME K"
      and f: "event_list_find c eid = Some (eid, [t])"
      and q: "transaction_process_queue c = []"
      and inl: "run_inline K dev t"
      and sd: "same_store c d"
      and p: "process_transaction K B dev (d\<lparr>world := allocations K B t (world d)\<rparr>)
                (iteration_of K t) (Some []) irq = Some (ret, Some [ev], d1)"
  shows "\<exists>c1. lwis_transaction_event_trigger K B dev c eid n (Some pe) irq
                 = Some (0, Some (pe @ [ev]), c1)
           \<and> same_store c1 d1 \<and> event_list_find c1 eid = Some (eid, [t])
           \<and> transaction_process_queue c1 = [] \<and> emitted c1 = emitted c"
proof -
  let ?c0 = "spin_lock_irqsave c"
  let ?c1 = "?c0\<lparr>world := allocations K B t (world ?c0)\<rparr>"
  have nr: "new_repeating_transaction_iteration K B ?c0 t = (Some (iteration_of K t), ?c1)"
    using al by (rule new_repeating_succeeds)
  from f have f0: "event_list_find ?c0 eid = Some (eid, [t])"
    by (simp add: event_list_find_def spin_lock_irqsave_def)
  from f have fl: "find (\<lambda>l. fst l = eid) (transaction_list c) = Some (eid, [t])"
    by (simp add: event_list_find_def)
  have upd: "event_list_update eid (\<lambda>ts. [t]) (transaction_list c) = transaction_list c"
    using fl by (rule event_list_update_same)
  have nm: "\<not> (trigger_event_counter (info t) = LWIS_EVENT_COUNTER_ON_NEXT_OCCURRENCE K
              \<or> trigger_event_counter (info t) = n)"
    using et d ne by simp
  from sd have s0: "same_store (d\<lparr>world := allocations K B t (world d)\<rparr>)
                      (spin_unlock_irqrestore ?c1)"
    by (simp add: same_store_def spin_unlock_irqrestore_def spin_lock_irqsave_def)
  from process_transaction_same_store [OF s0, of K B dev "iteration_of K t" "Some []" irq] p
  obtain c2 where
    pc: "process_transaction K B dev (spin_unlock_irqrestore ?c1) (iteration_of K t) (Some []) irq
           = Some (ret, Some [ev], c2)"
    and s2: "same_store d1 c2" by auto
  have pl: "process_transaction K B dev (spin_unlock_irqrestore ?c1) (iteration_of K t) (Some pe) irq
           = Some (ret, Some (pe @ [ev]), c2)"
    by (subst process_transaction_pending) (simp add: pc)
  note fr = process_transaction_frame [OF pl]
  have loop: "trigger_loop K B dev n irq [t] (Some pe) ?c0
                = Some ([t], Some (pe @ [ev]), spin_lock_irqsave c2)"
    using e0 et nm nr inl pl by simp
  let ?c3 = "(spin_lock_irqsave c2)\<lparr>transaction_list :=
               event_list_update eid (\<lambda>ts. [t]) (transaction_list (spin_lock_irqsave c2))\<rparr>"
  define c1 where "c1 = spin_unlock_irqrestore
               (if transaction_process_queue ?c3 \<noteq> [] then queue_work ?c3 else ?c3)"
  have tr: "lwis_transaction_event_trigger K B dev c eid n (Some pe) irq
              = Some (0, Some (pe @ [ev]), c1)"
    using f0 loop by (simp add: lwis_transaction_event_trigger_def Let_def c1_def)
  have tl: "transaction_list c1 = transaction_list c"
    using fr upd
    by (simp add: c1_def spin_lock_irqsave_def spin_unlock_irqrestore_def queue_work_def)
  have q1: "transaction_process_queue c1 = []"
    using fr q
    by (simp add: c1_def spin_lock_irqsave_def spin_unlock_irqrestore_def queue_work_def)
  have em: "emitted c1 = emitted c"
    using fr
    by (simp add: c1_def spin_lock_irqsave_def spin_unlock_irqrestore_def queue_work_def)
  have ss: "same_store c1 d1"
    using s2
    by (simp add: c1_def same_store_def spin_lock_irqsave_def spin_unlock_irqrestore_def
          queue_work_def)
  have "event_list_find c1 eid = Some (eid, [t])"
    using fl by (simp add: event_list_find_def tl)
  with tr ss q1 em show ?thesis by blast
qed

lemma trigger_every_time_queued:
  assumes e0: "error_code (resp t) = 0"
      and et: "trigger_event_counter (info t) = LWIS_EVENT_COUNTER_EVERY_TIME K"
      and d: "LWIS_EVENT_COUNTER_EVERY_TIME K \<noteq> LWIS_EVENT_COUNTER_ON_NEXT_OCCURRENCE K"
      and al: "\<forall>w n. fst (kzalloc B w n)"
      and ne: "n \<noteq> LWIS_EVENT_COUNTER_EVERY_TIME K"
      and f: "event_list_find c eid = Some (eid, [t])"
      and inl: "\<not> run_inline K dev t"
  shows "\<exists>c1. lwis_transaction_event_trigger K B dev c eid n (Some pe) irq = Some (0, Some pe, c1)
           \<and> same_store c1 (c\<lparr>world := allocations K B t (world c)\<rparr>)
           \<and> event_list_find c1 eid = Some (eid, [t])
           \<and> transaction_process_queue c1 = transaction_process_queue c @ [iteration_of K t]
           \<and> emitted c1 = emitted c"
proof -
  let ?c0 = "spin_lock_irqsave c"
  let ?c1 = "?c0\<lparr>world := allocations K B t (world ?c0)\<rparr>"
  have nr: "new_repeating_transaction_iteration K B ?c0 t = (Some (iteration_of K t), ?c1)"
    using al by (rule new_repeating_succeeds)
  from f have f0: "event_list_find ?c0 eid = Some (eid, [t])"
    by (simp add: event_list_find_def spin_lock_irqsave_def)
  from f have fl: "find (\<lambda>l. fst l = eid) (transaction_list c) = Some (eid, [t])"
    by (simp add: event_list_find_def)
  have upd: "event_list_update eid (\<lambda>ts. [t]) (transaction_list c) = transaction_list c"
    using fl by (rule event_list_update_same)
  have nm: "\<not> (trigger_event_counter (info t) = LWIS_EVENT_COUNTER_ON_NEXT_OCCURRENCE K
              \<or> trigger_event_counter (info t) = n)"
    using et d ne by simp
  let ?c2 = "process_queue_add_tail (iteration_of K t) ?c1"
  have loop: "trigger_loop K B dev n irq [t] (Some pe) ?c0 = Some ([t], Some pe, ?c2)"
    using e0 et nm nr inl by simp
  let ?c3 = "?c2\<lparr>transaction_list :=
               event_list_update eid (\<lambda>ts. [t]) (transaction_list ?c2)\<rparr>"
  define c1 where "c1 = spin_unlock_irqrestore
               (if transaction_process_queue ?c3 \<noteq> [] then queue_work ?c3 else ?c3)"
  have tr: "lwis_transaction_event_trigger K B dev c eid n (Some pe) irq = Some (0, Some pe, c1)"
    using f0 loop by (simp add: lwis_transaction_event_trigger_def Let_def c1_def)
  have tl: "transaction_list c1 = transaction_list c"
    using upd
    by (simp add: c1_def spin_lock_irqsave_def spin_unlock_irqrestore_def queue_work_def
          process_queue_add_tail_def)
  have q1: "transaction_process_queue c1 = transaction_process_queue c @ [iteration_of K t]"
    by (simp add: c1_def spin_lock_irqsave_def spin_unlock_irqrestore_def queue_work_def
          process_queue_add_tail_def)
  have em: "emitted c1 = emitted c"
    by (simp add: c1_def spin_lock_irqsave_def spin_unlock_irqrestore_def queue_work_def
          process_queue_add_tail_def)
  have ss: "same_store c1 (c\<lparr>world := allocations K B t (world c)\<rparr>)"
    by (simp add: c1_def same_store_def spin_lock_irqsave_def spin_unlock_irqrestore_def
          queue_work_def process_queue_add_tail_def)
  have "event_list_find c1 eid = Some (eid, [t])"
    using fl by (simp add: event_list_find_def tl)
  with tr ss q1 em show ?thesis by blast
qed

lemma fire_events_inline:
  assumes e0: "error_code (resp t) = 0"
      and et: "trigger_event_counter (info t) = LWIS_EVENT_COUNTER_EVERY_TIME K"
      and d: "LWIS_EVENT_COUNTER_EVERY_TIME K \<noteq> LWIS_EVENT_COUNTER_ON_NEXT_OCCURRENCE K"
      and al: "\<forall>w n. fst (kzalloc B w n)"
      and inl: "run_inline K dev t"
  shows "\<forall>n \<in> set ns. n \<noteq> LWIS_EVENT_COUNTER_EVERY_TIME K \<Longrightarrow>
         event_list_find c eid = Some (eid, [t]) \<Longrightarrow>
         transaction_process_queue c = [] \<Longrightarrow>
         same_store c d0 \<Longrightarrow>
         passes K B dev irq (allocations K B t) (iteration_of K t) (length ns) d0
           = Some (evs, d1) \<Longrightarrow>
         \<exists>c1. fire_events K B dev eid ns irq (Some l) c = Some (Some (l @ evs), c1)
           \<and> same_store c1 d1 \<and> event_list_find c1 eid = Some (eid, [t])
           \<and> transaction_process_queue c1 = [] \<and> emitted c1 = emitted c"
proof (induction ns arbitrary: l c d0 evs)
  case Nil
  then show ?case by simp
next
  case (Cons n ns)
  from Cons.prems(1) have ne: "n \<noteq> LWIS_EVENT_COUNTER_EVERY_TIME K"
    and rest: "\<forall>n \<in> set ns. n \<noteq> LWIS_EVENT_COUNTER_EVERY_TIME K" by simp_all
  from Cons.prems(5) obtain ret pe dm evs2 where
    p: "process_transaction K B dev (d0\<lparr>world := allocations K B t (world d0)\<rparr>)
          (iteration_of K t) (Some []) irq = Some (ret, pe, dm)"
    and ps: "passes K B dev irq (allocations K B t) (iteration_of K t) (length ns) dm
               = Some (evs2, d1)"
    and ev: "evs = (case pe of None \<Rightarrow> [] | Some l \<Rightarrow> l) @ evs2"
    by (auto split: option.splits)
  from process_transaction_pushes_one [OF p] obtain e where pe: "pe = Some [e]" by auto
  from trigger_every_time_inline [OF e0 et d al ne Cons.prems(2) Cons.prems(3) inl Cons.prems(4)
         p [unfolded pe], of l]
  obtain cm where
    tr: "lwis_transaction_event_trigger K B dev c eid n (Some l) irq = Some (0, Some (l @ [e]), cm)"
    and sm: "same_store cm dm" and fm: "event_list_find cm eid = Some (eid, [t])"
    and qm: "transaction_process_queue cm = []" and em: "emitted cm = emitted c" by blast
  from Cons.IH [OF rest fm qm sm ps, of "l @ [e]"] obtain c1 where
    "fire_events K B dev eid ns irq (Some (l @ [e])) cm = Some (Some ((l @ [e]) @ evs2), c1)"
    "same_store c1 d1" "event_list_find c1 eid = Some (eid, [t])"
    "transaction_process_queue c1 = []" "emitted c1 = emitted cm" by blast
  with tr ev pe em show ?case by simp
qed

lemma fire_events_queued:
  assumes e0: "error_code (resp t) = 0"
      and et: "trigger_event_counter (info t) = LWIS_EVENT_COUNTER_EVERY_TIME K"
      and d: "LWIS_EVENT_COUNTER_EVERY_TIME K \<noteq> LWIS_EVENT_COUNTER_ON_NEXT_OCCURRENCE K"
      and al: "\<forall>w n. fst (kzalloc B w n)"
      and inl: "\<not> run_inline K dev t"
  shows "\<forall>n \<in> set ns. n \<noteq> LWIS_EVENT_COUNTER_EVERY_TIME K \<Longrightarrow>
         event_list_find c eid = Some (eid, [t]) \<Longrightarrow>
         \<exists>c1. fire_events K B dev eid ns irq (Some l) c = Some (Some l, c1)
           \<and> same_store c1 (c\<lparr>world := (allocations K B t ^^ length ns) (world c)\<rparr>)
           \<and> event_list_find c1 eid = Some (eid, [t])
           \<and> transaction_process_queue c1
               = transaction_process_queue c @ replicate (length ns) (iteration_of K t)
           \<and> emitted c1 = emitted c"
proof (induction ns arbitrary: c)
  case Nil
  then show ?case by (simp add: same_store_def)
next
  case (Cons n ns)
  let ?a = "allocations K B t"
  from Cons.prems(1) have ne: "n \<noteq> LWIS_EVENT_COUNTER_EVERY_TIME K"
    and rest: "\<forall>n \<in> set ns. n \<noteq> LWIS_EVENT_COUNTER_EVERY_TIME K" by simp_all
  from trigger_every_time_queued [OF e0 et d al ne Cons.prems(2) inl, of l irq]
  obtain cm where
    tr: "lwis_transaction_event_trigger K B dev c eid n (Some l) irq = Some (0, Some l, cm)"
    and sm: "same_store cm (c\<lparr>world := ?a (world c)\<rparr>)"
    and fm: "event_list_find cm eid = Some (eid, [t])"
    and qm: "transaction_process_queue cm = transaction_process_queue c @ [iteration_of K t]"
    and em: "emitted cm = emitted c" by blast
  from Cons.IH [OF rest fm] obtain c1 where
    fe: "fire_events K B dev eid ns irq (Some l) cm = Some (Some l, c1)"
    and s1: "same_store c1 (cm\<lparr>world := (?a ^^ length ns) (world cm)\<rparr>)"
    and f1: "event_list_find c1 eid = Some (eid, [t])"
    and q1: "transaction_process_queue c1
       = transaction_process_queue cm @ replicate (length ns) (iteration_of K t)"
    and e1: "emitted c1 = emitted cm" by blast
  from sm have wm: "world cm = ?a (world c)" by (simp add: same_store_def)
  have "same_store (cm\<lparr>world := (?a ^^ length ns) (world cm)\<rparr>)
          (c\<lparr>world := (?a ^^ length (n # ns)) (world c)\<rparr>)"
    using sm by (simp add: same_store_def funpow_swap1)
  with s1 have "same_store c1 (c\<lparr>world := (?a ^^ length (n # ns)) (world c)\<rparr>)"
    by (rule same_store_trans)
  with tr fe f1 q1 qm e1 em show ?case
    by (simp add: replicate_append_same)
qed

text \<open>
  Claim C2.  For a waiting transaction \<open>t\<close> without error whose trigger counter is the
  \<open>EVERY_TIME\<close> sentinel (a value different from \<open>ON_NEXT_OCCURRENCE\<close>):
  \<^item> when both allocations succeed, the new instance has the info of \<open>t\<close>, hence the same
    entry array, and a response with the header of \<open>t\<close> and an empty result area in an
    allocation of header size plus \<open>results_size_bytes\<close>;
  \<^item> when an event whose counter is not the sentinel fires and the loop reaches \<open>t\<close>
    with both allocations succeeding, the new instance is executed inline or appended to the
    process queue, and \<open>t\<close> stays in the event list at its place;
  \<^item> when one of the two allocations fails, \<open>t\<close> with error code \<open>-ENOMEM\<close> is appended to
    the process queue and leaves the event list;
  \<^item> when allocations succeed and the entries hold no poll, firing the event \<open>N\<close> times
    and then running the worker yields exactly the \<open>N\<close> events of \<open>N\<close> executions of the
    new instance in a row: inline, each execution follows the allocations of its firing and
    pushes its event; queued, the executions follow the allocations of all firings and the
    worker emits their events.  \<open>t\<close> is still the content of the event list, and store and
    world are as these executions leave them;
  \<^item> on the simulated device, three firings of event 7 for the repeating write/read
    transaction 4 followed by the worker emit three success events with the read result 5
    and leave transaction 4 in its event list; with an allocator that refuses the response
    buffer, one firing moves transaction 4 with \<open>-ENOMEM\<close> to the process queue.
\<close>

theorem repeating_transaction_clones_on_every_firing:
  assumes e0: "error_code (resp t) = 0"
      and et: "trigger_event_counter (info t) = LWIS_EVENT_COUNTER_EVERY_TIME K"
      and d: "LWIS_EVENT_COUNTER_EVERY_TIME K \<noteq> LWIS_EVENT_COUNTER_ON_NEXT_OCCURRENCE K"
  shows "(kzalloc B (world c) (sizeof_transaction K) = (True, w1)
            \<and> kzalloc B w1 (sizeof_response_header K + results_size_bytes (resp t)) = (True, w2)
          \<longrightarrow> new_repeating_transaction_iteration K B c t
                = (Some (iteration_of K t), c\<lparr>world := w2\<rparr>))
       \<and> (event_counter \<noteq> LWIS_EVENT_COUNTER_EVERY_TIME K
            \<and> trigger_loop K B dev event_counter in_irq xs pe c = Some (rx, pe1, c1)
            \<and> kzalloc B (world c1) (sizeof_transaction K) = (True, w1)
            \<and> kzalloc B w1 (sizeof_response_header K + results_size_bytes (resp t)) = (True, w2)
          \<longrightarrow> trigger_loop K B dev event_counter in_irq (xs @ t # ys) pe c =
                (if run_inline K dev t then
                   (case process_transaction K B dev (spin_unlock_irqrestore (c1\<lparr>world := w2\<rparr>))
                           (iteration_of K t) pe1 in_irq of
                      None \<Rightarrow> None
                    | Some (ret, pe2, c2) \<Rightarrow>
                        (case trigger_loop K B dev event_counter in_irq ys pe2
                                (spin_lock_irqsave c2) of
                           None \<Rightarrow> None
                         | Some (ry, pe3, c3) \<Rightarrow> Some (rx @ t # ry, pe3, c3)))
                 else
                   (case trigger_loop K B dev event_counter in_irq ys pe1
                           (process_queue_add_tail (iteration_of K t) (c1\<lparr>world := w2\<rparr>)) of
                      None \<Rightarrow> None
                    | Some (ry, pe3, c3) \<Rightarrow> Some (rx @ t # ry, pe3, c3))))
       \<and> (event_counter \<noteq> LWIS_EVENT_COUNTER_EVERY_TIME K
            \<and> trigger_loop K B dev event_counter in_irq xs pe c = Some (rx, pe1, c1)
            \<and> (kzalloc B (world c1) (sizeof_transaction K) = (False, w2)
                \<or> kzalloc B (world c1) (sizeof_transaction K) = (True, w1)
                   \<and> kzalloc B w1 (sizeof_response_header K + results_size_bytes (resp t))
                       = (False, w2))
          \<longrightarrow> trigger_loop K B dev event_counter in_irq (xs @ t # ys) pe c =
                (case trigger_loop K B dev event_counter in_irq ys pe1
                        (process_queue_add_tail (t\<lparr>resp := (resp t)\<lparr>error_code := - ENOMEM\<rparr>\<rparr>)
                           (c1\<lparr>world := w2\<rparr>)) of
                   None \<Rightarrow> None
                 | Some (ry, pe3, c3) \<Rightarrow> Some (rx @ ry, pe3, c3)))
       \<and> ((\<forall>w n. fst (kzalloc B w n))
            \<and> (\<forall>n \<in> set ns. n \<noteq> LWIS_EVENT_COUNTER_EVERY_TIME K)
            \<and> event_list_find c event_id = Some (event_id, [t])
            \<and> transaction_process_queue c = []
            \<and> no_poll (io_mem c (io_entries (info t)))
          \<longrightarrow> (\<exists>evs d pe' c' c''.
                 (if run_inline K dev t then
                    passes K B dev in_irq (allocations K B t) (iteration_of K t) (length ns) c
                  else
                    passes K B dev False id (iteration_of K t) (length ns)
                      (c\<lparr>world := (allocations K B t ^^ length ns) (world c)\<rparr>))
                   = Some (evs, d)
                 \<and> length evs = length ns
                 \<and> fire_events K B dev event_id ns in_irq (Some l) c = Some (Some pe', c')
                 \<and> event_list_find c' event_id = Some (event_id, [t])
                 \<and> transaction_work_func K B dev c' = Some c''
                 \<and> event_list_find c'' event_id = Some (event_id, [t])
                 \<and> (if run_inline K dev t then pe' = l @ evs \<and> emitted c'' = emitted c
                     else pe' = l \<and> emitted c'' = emitted c @ evs)
                 \<and> io_mem c'' = io_mem d \<and> world c'' = world d))
       \<and> (case fire_events sim_defs sim_env sim_dev 7 [1, 2, 3] False (Some []) every_client of
            None \<Rightarrow> False
          | Some (pe', c') \<Rightarrow>
              pe' = Some [] \<and> transaction_list c' = [(7, [every_transaction])]
              \<and> map_option emitted (transaction_work_func sim_defs sim_env sim_dev c')
                  = Some [every_event, every_event, every_event])
       \<and> (case lwis_transaction_event_trigger sim_defs nomem_env sim_dev every_client 7 1
                    (Some []) False of
            None \<Rightarrow> False
          | Some (ret, pe', c') \<Rightarrow>
              ret = 0 \<and> pe' = Some [] \<and> transaction_list c' = [(7, [])] \<and> work_pending c'
              \<and> map (\<lambda>u. (id' (info u), error_code (resp u))) (transaction_process_queue c')
                  = [(4, - ENOMEM)])"
proof (intro conjI impI)
  assume "kzalloc B (world c) (sizeof_transaction K) = (True, w1)
            \<and> kzalloc B w1 (sizeof_response_header K + results_size_bytes (resp t)) = (True, w2)"
  then show "new_repeating_transaction_iteration K B c t
                = (Some (iteration_of K t), c\<lparr>world := w2\<rparr>)"
    by (simp add: new_repeating_alloc)
next
  assume a: "event_counter \<noteq> LWIS_EVENT_COUNTER_EVERY_TIME K
            \<and> trigger_loop K B dev event_counter in_irq xs pe c = Some (rx, pe1, c1)
            \<and> kzalloc B (world c1) (sizeof_transaction K) = (True, w1)
            \<and> kzalloc B w1 (sizeof_response_header K + results_size_bytes (resp t)) = (True, w2)"
  then have ne: "event_counter \<noteq> LWIS_EVENT_COUNTER_EVERY_TIME K"
    and pre: "trigger_loop K B dev event_counter in_irq xs pe c = Some (rx, pe1, c1)"
    and nr: "new_repeating_transaction_iteration K B c1 t
               = (Some (iteration_of K t), c1\<lparr>world := w2\<rparr>)"
    by (simp_all add: new_repeating_alloc)
  show "trigger_loop K B dev event_counter in_irq (xs @ t # ys) pe c =
                (if run_inline K dev t then
                   (case process_transaction K B dev (spin_unlock_irqrestore (c1\<lparr>world := w2\<rparr>))
                           (iteration_of K t) pe1 in_irq of
                      None \<Rightarrow> None
                    | Some (ret, pe2, c2) \<Rightarrow>
                        (case trigger_loop K B dev event_counter in_irq ys pe2
                                (spin_lock_irqsave c2) of
                           None \<Rightarrow> None
                         | Some (ry, pe3, c3) \<Rightarrow> Some (rx @ t # ry, pe3, c3)))
                 else
                   (case trigger_loop K B dev event_counter in_irq ys pe1
                           (process_queue_add_tail (iteration_of K t) (c1\<lparr>world := w2\<rparr>)) of
                      None \<Rightarrow> None
                    | Some (ry, pe3, c3) \<Rightarrow> Some (rx @ t # ry, pe3, c3)))"
    unfolding trigger_loop_every_time [OF e0 et d ne] pre
    by (simp add: nr split: option.splits)
next
  assume a: "event_counter \<noteq> LWIS_EVENT_COUNTER_EVERY_TIME K
            \<and> trigger_loop K B dev event_counter in_irq xs pe c = Some (rx, pe1, c1)
            \<and> (kzalloc B (world c1) (sizeof_transaction K) = (False, w2)
                \<or> kzalloc B (world c1) (sizeof_transaction K) = (True, w1)
                   \<and> kzalloc B w1 (sizeof_response_header K + results_size_bytes (resp t))
                       = (False, w2))"
  then have ne: "event_counter \<noteq> LWIS_EVENT_COUNTER_EVERY_TIME K"
    and pre: "trigger_loop K B dev event_counter in_irq xs pe c = Some (rx, pe1, c1)"
    by simp_all
  from a have nr: "new_repeating_transaction_iteration K B c1 t = (None, c1\<lparr>world := w2\<rparr>)"
    by (auto simp: new_repeating_alloc)
  show "trigger_loop K B dev event_counter in_irq (xs @ t # ys) pe c =
                (case trigger_loop K B dev event_counter in_irq ys pe1
                        (process_queue_add_tail (t\<lparr>resp := (resp t)\<lparr>error_code := - ENOMEM\<rparr>\<rparr>)
                           (c1\<lparr>world := w2\<rparr>)) of
                   None \<Rightarrow> None
                 | Some (ry, pe3, c3) \<Rightarrow> Some (rx @ ry, pe3, c3))"
    unfolding trigger_loop_every_time [OF e0 et d ne] pre
    by (simp add: nr)
next
  assume a: "(\<forall>w n. fst (kzalloc B w n))
            \<and> (\<forall>n \<in> set ns. n \<noteq> LWIS_EVENT_COUNTER_EVERY_TIME K)
            \<and> event_list_find c event_id = Some (event_id, [t])
            \<and> transaction_process_queue c = []
            \<and> no_poll (io_mem c (io_entries (info t)))"
  then have al: "\<forall>w n. fst (kzalloc B w n)"
    and cs: "\<forall>n \<in> set ns. n \<noteq> LWIS_EVENT_COUNTER_EVERY_TIME K"
    and f: "event_list_find c event_id = Some (event_id, [t])"
    and q: "transaction_process_queue c = []"
    and np: "no_poll (io_mem c (io_entries (info t)))" by blast+
  let ?u = "iteration_of K t"
  let ?a = "allocations K B t"
  let ?c0 = "c\<lparr>world := (?a ^^ length ns) (world c)\<rparr>"
  let ?ref = "if run_inline K dev t then passes K B dev in_irq ?a ?u (length ns) c
              else passes K B dev False id ?u (length ns) ?c0"
  show "\<exists>evs d pe' c' c''.
                 ?ref = Some (evs, d)
                 \<and> length evs = length ns
                 \<and> fire_events K B dev event_id ns in_irq (Some l) c = Some (Some pe', c')
                 \<and> event_list_find c' event_id = Some (event_id, [t])
                 \<and> transaction_work_func K B dev c' = Some c''
                 \<and> event_list_find c'' event_id = Some (event_id, [t])
                 \<and> (if run_inline K dev t then pe' = l @ evs \<and> emitted c'' = emitted c
                     else pe' = l \<and> emitted c'' = emitted c @ evs)
                 \<and> io_mem c'' = io_mem d \<and> world c'' = world d"
  proof (cases "run_inline K dev t")
    case True
    have np': "no_poll (io_mem c (io_entries (info ?u)))" using np by simp
    from passes_returns [OF np', of K B dev in_irq ?a "length ns"] obtain evs d where
      ps: "passes K B dev in_irq ?a ?u (length ns) c = Some (evs, d)"
      and len: "length evs = length ns" by blast
    have cc: "same_store c c" by (simp add: same_store_def)
    from fire_events_inline [OF e0 et d al True cs f q cc ps, where l = l] obtain c' where
      fe: "fire_events K B dev event_id ns in_irq (Some l) c = Some (Some (l @ evs), c')"
      and s': "same_store c' d" and f': "event_list_find c' event_id = Some (event_id, [t])"
      and q': "transaction_process_queue c' = []" and em': "emitted c' = emitted c" by blast
    have cc': "same_store c' c'" by (simp add: same_store_def)
    from transaction_work_func_drain [OF cc', of K B dev] q' obtain c'' where
      w: "transaction_work_func K B dev c' = Some c''" and em'': "emitted c'' = emitted c'"
      and s'': "same_store c'' c'" by auto
    from transaction_work_func_result [OF w] f'
    have f'': "event_list_find c'' event_id = Some (event_id, [t])"
      by (simp add: event_list_find_def)
    from s'' s' have "io_mem c'' = io_mem d" "world c'' = world d"
      by (simp_all add: same_store_def)
    with True ps len fe f' w f'' em'' em' show ?thesis by auto
  next
    case False
    have np': "no_poll (io_mem ?c0 (io_entries (info ?u)))" using np by simp
    from passes_returns [OF np', of K B dev False id "length ns"] obtain evs d where
      ps: "passes K B dev False id ?u (length ns) ?c0 = Some (evs, d)"
      and len: "length evs = length ns" by blast
    from fire_events_queued [OF e0 et d al False cs f, where irq = in_irq and l = l]
    obtain c' where
      fe: "fire_events K B dev event_id ns in_irq (Some l) c = Some (Some l, c')"
      and s': "same_store c' ?c0" and f': "event_list_find c' event_id = Some (event_id, [t])"
      and q': "transaction_process_queue c' = replicate (length ns) ?u"
      and em': "emitted c' = emitted c" using q by auto
    have dr: "drain_events K B dev (transaction_process_queue c') ?c0 = Some (evs, d)"
      unfolding q' using ps e0 by (simp add: drain_events_passes)
    from transaction_work_func_drain [OF s', of K B dev] dr obtain c'' where
      w: "transaction_work_func K B dev c' = Some c''"
      and em'': "emitted c'' = emitted c' @ evs" and s'': "same_store c'' d" by auto
    from transaction_work_func_result [OF w] f'
    have f'': "event_list_find c'' event_id = Some (event_id, [t])"
      by (simp add: event_list_find_def)
    from s'' have "io_mem c'' = io_mem d" "world c'' = world d"
      by (simp_all add: same_store_def)
    with False ps len fe f' w f'' em'' em' show ?thesis by auto
  qed
next
  show "case fire_events sim_defs sim_env sim_dev 7 [1, 2, 3] False (Some []) every_client of
            None \<Rightarrow> False
          | Some (pe', c') \<Rightarrow>
              pe' = Some [] \<and> transaction_list c' = [(7, [every_transaction])]
              \<and> map_option emitted (transaction_work_func sim_defs sim_env sim_dev c')
                  = Some [every_event, every_event, every_event]"
    by (simp add: every_simps sim_simps interp_simps trigger_simps manager_simps errno_simps
          upt_rec)
next
  show "case lwis_transaction_event_trigger sim_defs nomem_env sim_dev every_client 7 1
                    (Some []) False of
            None \<Rightarrow> False
          | Some (ret, pe', c') \<Rightarrow>
              ret = 0 \<and> pe' = Some [] \<and> transaction_list c' = [(7, [])] \<and> work_pending c'
              \<and> map (\<lambda>u. (id' (info u), error_code (resp u))) (transaction_process_queue c')
                  = [(4, - ENOMEM)]"
    by (simp add: every_simps nomem_env_def sim_simps interp_simps trigger_simps manager_simps
          errno_simps upt_rec)
qed

theorem repeating_transaction_witness:
  "error_code (resp every_transaction) = 0
   \<and> trigger_event_counter (info every_transaction) = LWIS_EVENT_COUNTER_EVERY_TIME sim_defs
   \<and> (\<exists>c' c''.
         fire_events sim_defs sim_env sim_dev 7 [1, 2, 3] False (Some []) every_client
           = Some (Some [], c')
         \<and> event_list_find c' 7 = Some (7, [every_transaction])
         \<and> transaction_work_func sim_defs sim_env sim_dev c' = Some c''
         \<and> event_list_find c'' 7 = Some (7, [every_transaction])
         \<and> emitted c'' = [every_event, every_event, every_event]
         \<and> regs (world c'') (0, 0x10) = 5)
   \<and> (\<exists>c' c''.
         fire_events sim_defs sim_env sim_dev 7 [1, 2, 3] False (Some []) every_inline_client
           = Some (Some [every_event, every_event, every_event], c')
         \<and> event_list_find c' 7 = Some (7, [every_inline])
         \<and> transaction_work_func sim_defs sim_env sim_dev c' = Some c''
         \<and> emitted c'' = [])
   \<and> (\<exists>c3. trigger_loop sim_defs nomem_env sim_dev 1 False [every_transaction] (Some [])
               every_client = Some ([], Some [], c3)
         \<and> map (\<lambda>u. (id' (info u), error_code (resp u))) (transaction_process_queue c3)
             = [(4, - ENOMEM)])"
proof -
  have e0: "error_code (resp every_transaction) = 0"
    and e0i: "error_code (resp every_inline) = 0"
    by (simp_all add: every_simps sim_simps)
  have et: "trigger_event_counter (info every_transaction) = LWIS_EVENT_COUNTER_EVERY_TIME sim_defs"
    and eti: "trigger_event_counter (info every_inline) = LWIS_EVENT_COUNTER_EVERY_TIME sim_defs"
    by (simp_all add: every_simps sim_simps)
  have d: "LWIS_EVENT_COUNTER_EVERY_TIME sim_defs \<noteq> LWIS_EVENT_COUNTER_ON_NEXT_OCCURRENCE sim_defs"
    by (simp add: sim_simps)
  have inl: "\<not> run_inline sim_defs sim_dev every_transaction"
    "run_inline sim_defs sim_dev every_inline"
    by (simp_all add: run_inline_def every_simps sim_simps)
  have al: "allocations sim_defs sim_env u = id" for u
    by (rule ext) (simp add: allocations_def sim_env_def)
  have h: "(\<forall>w n. fst (kzalloc sim_env w n))
            \<and> (\<forall>n \<in> set [1, 2, 3]. n \<noteq> LWIS_EVENT_COUNTER_EVERY_TIME sim_defs)
            \<and> event_list_find every_client 7 = Some (7, [every_transaction])
            \<and> transaction_process_queue every_client = []
            \<and> no_poll (io_mem every_client (io_entries (info every_transaction)))"
    by (simp add: every_simps sim_simps event_list_find_def no_poll_def)
  have hi: "(\<forall>w n. fst (kzalloc sim_env w n))
            \<and> (\<forall>n \<in> set [1, 2, 3]. n \<noteq> LWIS_EVENT_COUNTER_EVERY_TIME sim_defs)
            \<and> event_list_find every_inline_client 7 = Some (7, [every_inline])
            \<and> transaction_process_queue every_inline_client = []
            \<and> no_poll (io_mem every_inline_client (io_entries (info every_inline)))"
    by (simp add: every_simps sim_simps event_list_find_def no_poll_def)
  have ps: "\<exists>d. passes sim_defs sim_env sim_dev False id (iteration_of sim_defs every_transaction)
                  (length [1, 2, 3 :: s64])
                  (every_client\<lparr>world := (id ^^ length [1, 2, 3 :: s64]) (world every_client)\<rparr>)
              = Some ([every_event, every_event, every_event], d)
            \<and> regs (world d) (0, 0x10) = 5"
    by (simp add: every_simps iteration_of_def sim_simps interp_simps errno_simps upt_rec)
  have psi: "\<exists>d. passes sim_defs sim_env sim_dev False id (iteration_of sim_defs every_inline)
                  (length [1, 2, 3 :: s64]) every_inline_client
              = Some ([every_event, every_event, every_event], d)"
    by (simp add: every_simps iteration_of_def sim_simps interp_simps errno_simps upt_rec)
  note th = repeating_transaction_clones_on_every_firing
  from th [OF e0 et d, where B = sim_env and ns = "[1, 2, 3]" and c = every_client
           and event_id = 7 and dev = sim_dev and in_irq = False and l = "[]",
           THEN conjunct2, THEN conjunct2, THEN conjunct2, THEN conjunct1, rule_format, OF h]
  obtain evs dd pe' c' c'' where
    "(if run_inline sim_defs sim_dev every_transaction then
        passes sim_defs sim_env sim_dev False (allocations sim_defs sim_env every_transaction)
          (iteration_of sim_defs every_transaction) (length [1, 2, 3 :: s64]) every_client
      else
        passes sim_defs sim_env sim_dev False id (iteration_of sim_defs every_transaction)
          (length [1, 2, 3 :: s64])
          (every_client\<lparr>world := (allocations sim_defs sim_env every_transaction
                                     ^^ length [1, 2, 3 :: s64]) (world every_client)\<rparr>))
       = Some (evs, dd)"
    "fire_events sim_defs sim_env sim_dev 7 [1, 2, 3] False (Some []) every_client
       = Some (Some pe', c')"
    "event_list_find c' 7 = Some (7, [every_transaction])"
    "transaction_work_func sim_defs sim_env sim_dev c' = Some c''"
    "event_list_find c'' 7 = Some (7, [every_transaction])"
    "if run_inline sim_defs sim_dev every_transaction
     then pe' = [] @ evs \<and> emitted c'' = emitted every_client
     else pe' = [] \<and> emitted c'' = emitted every_client @ evs"
    "world c'' = world dd"
    by blast
  with ps inl have w1: "\<exists>c' c''.
         fire_events sim_defs sim_env sim_dev 7 [1, 2, 3] False (Some []) every_client
           = Some (Some [], c')
         \<and> event_list_find c' 7 = Some (7, [every_transaction])
         \<and> transaction_work_func sim_defs sim_env sim_dev c' = Some c''
         \<and> event_list_find c'' 7 = Some (7, [every_transaction])
         \<and> emitted c'' = [every_event, every_event, every_event]
         \<and> regs (world c'') (0, 0x10) = 5"
    by (auto simp: al every_client_def sim_client_def)
  from th [OF e0i eti d, where B = sim_env and ns = "[1, 2, 3]" and c = every_inline_client
           and event_id = 7 and dev = sim_dev and in_irq = False and l = "[]",
           THEN conjunct2, THEN conjunct2, THEN conjunct2, THEN conjunct1, rule_format, OF hi]
  obtain evs dd pe' c' c'' where
    "(if run_inline sim_defs sim_dev every_inline then
        passes sim_defs sim_env sim_dev False (allocations sim_defs sim_env every_inline)
          (iteration_of sim_defs every_inline) (length [1, 2, 3 :: s64]) every_inline_client
      else
        passes sim_defs sim_env sim_dev False id (iteration_of sim_defs every_inline)
          (length [1, 2, 3 :: s64])
          (every_inline_client\<lparr>world := (allocations sim_defs sim_env every_inline
                                     ^^ length [1, 2, 3 :: s64]) (world every_inline_client)\<rparr>))
       = Some (evs, dd)"
    "fire_events sim_defs sim_env sim_dev 7 [1, 2, 3] False (Some []) every_inline_client
       = Some (Some pe', c')"
    "event_list_find c' 7 = Some (7, [every_inline])"
    "transaction_work_func sim_defs sim_env sim_dev c' = Some c''"
    "if run_inline sim_defs sim_dev every_inline
     then pe' = [] @ evs \<and> emitted c'' = emitted every_inline_client
     else pe' = [] \<and> emitted c'' = emitted every_inline_client @ evs"
    by blast
  with psi inl have w2: "\<exists>c' c''.
         fire_events sim_defs sim_env sim_dev 7 [1, 2, 3] False (Some []) every_inline_client
           = Some (Some [every_event, every_event, every_event], c')
         \<and> event_list_find c' 7 = Some (7, [every_inline])
         \<and> transaction_work_func sim_defs sim_env sim_dev c' = Some c''
         \<and> emitted c'' = []"
    by (auto simp: al every_inline_client_def every_client_def sim_client_def)
  have hf: "(1 :: s64) \<noteq> LWIS_EVENT_COUNTER_EVERY_TIME sim_defs
            \<and> trigger_loop sim_defs nomem_env sim_dev 1 False [] (Some []) every_client
                = Some ([], Some [], every_client)
            \<and> (kzalloc nomem_env (world every_client) (sizeof_transaction sim_defs)
                 = (False, world every_client)
                \<or> kzalloc nomem_env (world every_client) (sizeof_transaction sim_defs)
                     = (True, world every_client)
                   \<and> kzalloc nomem_env (world every_client)
                       (sizeof_response_header sim_defs + results_size_bytes (resp every_transaction))
                       = (False, world every_client))"
    by (simp add: nomem_env_def every_simps sim_simps)
  from th [OF e0 et d, where B = nomem_env and dev = sim_dev and ys = "[]",
           THEN conjunct2, THEN conjunct2, THEN conjunct1, rule_format, OF hf]
  have w3: "\<exists>c3. trigger_loop sim_defs nomem_env sim_dev 1 False [every_transaction] (Some [])
               every_client = Some ([], Some [], c3)
         \<and> map (\<lambda>u. (id' (info u), error_code (resp u))) (transaction_process_queue c3)
             = [(4, - ENOMEM)]"
    by (simp add: process_queue_add_tail_def every_simps sim_simps)
  from e0 et w1 w2 w3 show ?thesis by blast
qed

end
